theory Spec2Isabelle
  imports Main "HOL-Library.Word" "HOL-Library.Sublist"
begin

unbundle bit_operations_syntax

section \<open>Strings\<close>

text \<open>
  A JavaScript string is a sequence of 16-bit code units. String constants of the
  source are ASCII; \<open>js\<close> turns an Isabelle literal into its code units.
  \<open>str_includes h n\<close> is \<^verbatim>\<open>h.includes(n)\<close>: \<open>n\<close> occurs in \<open>h\<close> as a
  contiguous run of code units, compared exactly (no case folding).
\<close>

type_synonym jsstring = "16 word list"

definition js :: "string \<Rightarrow> jsstring" where
  "js s = map (\<lambda>c. of_char c) s"

fun str_includes :: "jsstring \<Rightarrow> jsstring \<Rightarrow> bool" where
  "str_includes [] n = (n = [])"
| "str_includes (c # cs) n = (prefix n (c # cs) \<or> str_includes cs n)"

text \<open>JavaScript truthiness of a string: the empty string is falsy.\<close>

definition truthy :: "jsstring \<Rightarrow> bool" where
  "truthy s = (s \<noteq> [])"

section \<open>The error classifier (VoiceChat.tsx, parseError)\<close>

record ConnectionError =
  message :: jsstring
  details :: "jsstring option"
  recoverable :: bool

text \<open>
  \<open>parseError\<close> receives \<^verbatim>\<open>Error | string\<close> and first reduces it to the message
  text; the model takes that text. The chain of \<^verbatim>\<open>if\<close>s is kept in the order of
  the source.
\<close>

definition parseError :: "jsstring \<Rightarrow> ConnectionError" where
  "parseError msg =
    (if str_includes msg (js ''API_KEY'') \<or> str_includes msg (js ''apiKey'')
        \<or> str_includes msg (js ''environment variable'')
     then \<lparr>message = js ''API Key Not Configured'',
           details = Some (js ''The Gemini API key is not set up. Please contact the administrator.''),
           recoverable = False\<rparr>
     else if str_includes msg (js ''WebSocket'') \<or> str_includes msg (js ''connection'')
        \<or> str_includes msg (js ''network'')
     then \<lparr>message = js ''Connection Failed'',
           details = Some (js ''Unable to connect to the AI service. Check your internet connection and try again.''),
           recoverable = True\<rparr>
     else if str_includes msg (js ''401'') \<or> str_includes msg (js ''403'')
        \<or> str_includes msg (js ''unauthorized'') \<or> str_includes msg (js ''forbidden'')
     then \<lparr>message = js ''Authentication Error'',
           details = Some (js ''The API key may be invalid or expired. Please contact the administrator.''),
           recoverable = False\<rparr>
     else if str_includes msg (js ''429'') \<or> str_includes msg (js ''rate'')
        \<or> str_includes msg (js ''quota'')
     then \<lparr>message = js ''Rate Limited'',
           details = Some (js ''Too many requests. Please wait a moment and try again.''),
           recoverable = True\<rparr>
     else if str_includes msg (js ''model'') \<or> str_includes msg (js ''not found'')
        \<or> str_includes msg (js ''unavailable'')
     then \<lparr>message = js ''Service Unavailable'',
           details = Some (js ''The AI model is currently unavailable. Please try again later.''),
           recoverable = True\<rparr>
     else \<lparr>message = js ''Connection Error'',
           details = Some (if truthy msg then msg
                           else js ''An unexpected error occurred. Please try again.''),
           recoverable = True\<rparr>)"

subsection \<open>The classifier as the specification words it\<close>

text \<open>
  The specification describes the classifier as a table of six rules, tried in the
  listed order, the first match winning. \<open>first_match\<close> is that reading, with the
  way a needle is compared left as a parameter; \<open>rule_table\<close> is the table.
  \<open>classify_exact\<close> compares code units as they are, \<open>classify_nocase\<close> folds
  ASCII letters to lower case on both sides first (the "case-insensitive" of the
  specification).
\<close>

definition default_error :: "jsstring \<Rightarrow> ConnectionError" where
  "default_error msg =
     \<lparr>message = js ''Connection Error'',
      details = Some (if truthy msg then msg
                      else js ''An unexpected error occurred. Please try again.''),
      recoverable = True\<rparr>"

definition rule_table :: "(jsstring list \<times> ConnectionError) list" where
  "rule_table =
    [([js ''API_KEY'', js ''apiKey'', js ''environment variable''],
      \<lparr>message = js ''API Key Not Configured'',
       details = Some (js ''The Gemini API key is not set up. Please contact the administrator.''),
       recoverable = False\<rparr>),
     ([js ''WebSocket'', js ''connection'', js ''network''],
      \<lparr>message = js ''Connection Failed'',
       details = Some (js ''Unable to connect to the AI service. Check your internet connection and try again.''),
       recoverable = True\<rparr>),
     ([js ''401'', js ''403'', js ''unauthorized'', js ''forbidden''],
      \<lparr>message = js ''Authentication Error'',
       details = Some (js ''The API key may be invalid or expired. Please contact the administrator.''),
       recoverable = False\<rparr>),
     ([js ''429'', js ''rate'', js ''quota''],
      \<lparr>message = js ''Rate Limited'',
       details = Some (js ''Too many requests. Please wait a moment and try again.''),
       recoverable = True\<rparr>),
     ([js ''model'', js ''not found'', js ''unavailable''],
      \<lparr>message = js ''Service Unavailable'',
       details = Some (js ''The AI model is currently unavailable. Please try again later.''),
       recoverable = True\<rparr>)]"

fun first_match ::
  "(jsstring \<Rightarrow> jsstring \<Rightarrow> bool) \<Rightarrow> (jsstring list \<times> ConnectionError) list
     \<Rightarrow> jsstring \<Rightarrow> ConnectionError" where
  "first_match occurs [] msg = default_error msg"
| "first_match occurs ((needles, e) # rules) msg =
     (if list_ex (occurs msg) needles then e else first_match occurs rules msg)"

definition classify_exact :: "jsstring \<Rightarrow> ConnectionError" where
  "classify_exact msg = first_match str_includes rule_table msg"

definition ascii_lower :: "16 word \<Rightarrow> 16 word" where
  "ascii_lower c = (if 65 \<le> c \<and> c \<le> 90 then c + 32 else c)"

definition includes_nocase :: "jsstring \<Rightarrow> jsstring \<Rightarrow> bool" where
  "includes_nocase h n = str_includes (map ascii_lower h) (map ascii_lower n)"

definition classify_nocase :: "jsstring \<Rightarrow> ConnectionError" where
  "classify_nocase msg = first_match includes_nocase rule_table msg"

section \<open>The live client (lib/gemini.ts, GeminiLiveClient)\<close>

text \<open>
  A \<open>ChatMessage\<close> also carries an \<^verbatim>\<open>id\<close> (a fresh UUID) and a \<^verbatim>\<open>timestamp\<close>
  (the clock); neither is read by the code under study and both are left out.
  Audio chunks are \<^verbatim>\<open>ArrayBuffer\<close>s: lists of bytes.
\<close>

datatype Role = User | Assistant

record ChatMessage =
  role :: Role
  content :: jsstring

datatype Status = Connecting | Connected | Disconnected | Error

type_synonym bytes = "8 word list"

text \<open>
  What the client does to the outside is recorded as a list of effects, in the order
  of the calls: the three callbacks (assigned by \<^verbatim>\<open>VoiceChat\<close> before it connects,
  so \<^verbatim>\<open>this.onMessage?.(...)\<close> and its siblings do call), the calls on the SDK
  session and on the audio context, and what the drain loop does with each chunk it
  takes off the queue: \<open>SourceStart\<close> when the \<^verbatim>\<open>try\<close> block reaches
  \<^verbatim>\<open>source.start()\<close>, \<open>PlaybackError\<close> when it throws before and the
  \<^verbatim>\<open>catch\<close> logs it.
\<close>

datatype effect =
    OnMessage ChatMessage
  | OnStatusChange Status
  | OnError jsstring
  | LiveConnect jsstring
  | SendClientContent jsstring
  | SessionClose
  | AudioContextClose
  | SourceStart bytes
  | PlaybackError bytes

text \<open>A call either returns or throws an \<^verbatim>\<open>Error\<close> with a message.\<close>

datatype completion = Normal | Throw jsstring

datatype Session = Session
datatype AudioContext = AudioContext

text \<open>
  The fields of \<^verbatim>\<open>GeminiLiveClient\<close> that the methods under study read or write.
  \<open>draining\<close> is not a field of the class: it counts the activations of
  \<^verbatim>\<open>playQueuedAudio\<close> that are suspended at the \<^verbatim>\<open>await\<close> inside the loop,
  waiting for \<^verbatim>\<open>onended\<close>.
\<close>

record client =
  session :: "Session option"
  audioContext :: "AudioContext option"
  audioQueue :: "bytes list"
  isPlaying :: bool
  draining :: nat

definition new_client :: client where
  "new_client = \<lparr>session = None, audioContext = None, audioQueue = [],
                  isPlaying = False, draining = 0\<rparr>"

subsection \<open>connect and the close callback\<close>

text \<open>
  \<open>connect\<close>: \<open>live\<close> is the outcome of \<^verbatim>\<open>client.live.connect\<close>, \<open>None\<close> when
  the promise resolves (the SDK has then fired \<^verbatim>\<open>onopen\<close>), \<open>Some e\<close> when it
  rejects with message \<open>e\<close>.
\<close>

definition connect :: "jsstring option \<Rightarrow> client \<Rightarrow> jsstring
    \<Rightarrow> completion \<times> effect list \<times> client" where
  "connect live c apiKey =
    (let c1 = c\<lparr>audioContext := Some AudioContext\<rparr> in
     case live of
       None \<Rightarrow>
         (Normal, [OnStatusChange Connecting, LiveConnect apiKey, OnStatusChange Connected],
          c1\<lparr>session := Some Session\<rparr>)
     | Some e \<Rightarrow>
         (Throw e, [OnStatusChange Connecting, LiveConnect apiKey, OnError e,
                    OnStatusChange Disconnected], c1))"

record CloseEvent =
  code :: "16 word"
  reason :: jsstring
  wasClean :: bool

definition onclose :: "CloseEvent \<Rightarrow> effect list" where
  "onclose event =
    (let errorMessage =
       (if code event = 1000 then js ''Connection closed normally''
        else if code event = 1006
          then js ''Connection closed abnormally - possible network issue or invalid API key''
        else if code event = 1008
          then js ''Policy violation - check your API key permissions''
        else if code event = 1011
          then js ''Server error - the Gemini service encountered an issue''
        else if truthy (reason event) then js ''Connection closed: '' @ reason event
        else js ''Connection closed'')
     in (if code event \<noteq> 1000 then [OnError errorMessage] else [])
        @ [OnStatusChange Disconnected])"

subsection \<open>Base64\<close>

text \<open>
  \<^verbatim>\<open>btoa\<close> and \<^verbatim>\<open>atob\<close> belong to the platform. They are modelled after their
  definition in the HTML standard: \<^verbatim>\<open>btoa\<close> throws on a code unit above 255 and
  otherwise encodes the bytes as RFC 4648 does; \<^verbatim>\<open>atob\<close> is the forgiving
  decoder (ASCII whitespace dropped, up to two padding characters removed when the
  length is a multiple of four, failure on length 1 modulo 4 or on a character
  outside the alphabet, left-over bits of a short last group discarded).
\<close>

definition b64_alphabet :: jsstring where
  "b64_alphabet = js ''ABCDEFGHIJKLMNOPQRSTUVWXYZabcdefghijklmnopqrstuvwxyz0123456789+/''"

definition b64_char :: "nat \<Rightarrow> 16 word" where
  "b64_char n = b64_alphabet ! (n mod 64)"

definition b64_pad :: "16 word" where
  "b64_pad = 61"

fun b64_index :: "jsstring \<Rightarrow> 16 word \<Rightarrow> nat option" where
  "b64_index [] c = None"
| "b64_index (a # as) c =
     (if c = a then Some 0 else map_option Suc (b64_index as c))"

fun encode_groups :: "nat list \<Rightarrow> jsstring" where
  "encode_groups (a # b # c # rest) =
     (let n = (a * 256 + b) * 256 + c in
      [b64_char (n div 262144), b64_char (n div 4096 mod 64),
       b64_char (n div 64 mod 64), b64_char (n mod 64)] @ encode_groups rest)"
| "encode_groups [a, b] =
     (let n = (a * 256 + b) * 256 in
      [b64_char (n div 262144), b64_char (n div 4096 mod 64),
       b64_char (n div 64 mod 64), b64_pad])"
| "encode_groups [a] =
     (let n = a * 65536 in
      [b64_char (n div 262144), b64_char (n div 4096 mod 64), b64_pad, b64_pad])"
| "encode_groups [] = []"

definition btoa :: "jsstring \<Rightarrow> jsstring + jsstring" where
  "btoa s =
    (if list_ex (\<lambda>c. 255 < c) s then Inl (js ''InvalidCharacterError'')
     else Inr (encode_groups (map unat s)))"

definition ascii_whitespace :: "16 word \<Rightarrow> bool" where
  "ascii_whitespace c = (c = 9 \<or> c = 10 \<or> c = 12 \<or> c = 13 \<or> c = 32)"

definition strip_padding :: "jsstring \<Rightarrow> jsstring" where
  "strip_padding d =
    (if length d mod 4 = 0 \<and> d \<noteq> [] \<and> last d = b64_pad then
       (if butlast d \<noteq> [] \<and> last (butlast d) = b64_pad then butlast (butlast d)
        else butlast d)
     else d)"

fun decode_groups :: "nat list \<Rightarrow> nat list" where
  "decode_groups (s1 # s2 # s3 # s4 # rest) =
     (let n = ((s1 * 64 + s2) * 64 + s3) * 64 + s4 in
      [n div 65536, n div 256 mod 256, n mod 256] @ decode_groups rest)"
| "decode_groups [s1, s2, s3] =
     (let n = ((s1 * 64 + s2) * 64 + s3) div 4 in [n div 256, n mod 256])"
| "decode_groups [s1, s2] = [(s1 * 64 + s2) div 16]"
| "decode_groups [s1] = []"
| "decode_groups [] = []"

definition atob :: "jsstring \<Rightarrow> jsstring + jsstring" where
  "atob s =
    (let d = strip_padding (filter (\<lambda>c. \<not> ascii_whitespace c) s) in
     if length d mod 4 = 1 then Inl (js ''InvalidCharacterError'')
     else case those (map (b64_index b64_alphabet) d) of
            None \<Rightarrow> Inl (js ''InvalidCharacterError'')
          | Some sextets \<Rightarrow> Inr (map of_nat (decode_groups sextets)))"

text \<open>
  For the proofs: the six-bit groups that \<open>encode_groups\<close> turns into characters,
  and the padding it appends.
\<close>

fun sextets :: "nat list \<Rightarrow> nat list" where
  "sextets (a # b # c # rest) =
     (let n = (a * 256 + b) * 256 + c in
      [n div 262144, n div 4096 mod 64, n div 64 mod 64, n mod 64] @ sextets rest)"
| "sextets [a, b] =
     (let n = (a * 256 + b) * 256 in [n div 262144, n div 4096 mod 64, n div 64 mod 64])"
| "sextets [a] = (let n = a * 65536 in [n div 262144, n div 4096 mod 64])"
| "sextets [] = []"

definition padding :: "nat \<Rightarrow> jsstring" where
  "padding n = replicate ((3 - n mod 3) mod 3) b64_pad"

text \<open>
  \<open>arrayBufferToBase64\<close> (an earlier revision of gemini.ts): one code unit per
  byte through \<^verbatim>\<open>String.fromCharCode\<close>, then \<^verbatim>\<open>btoa\<close>.
  \<open>base64ToArrayBuffer\<close>: \<^verbatim>\<open>atob\<close>, then each \<^verbatim>\<open>charCodeAt(i)\<close> stored into a
  \<^verbatim>\<open>Uint8Array\<close> (which keeps the low eight bits).
\<close>

definition arrayBufferToBase64 :: "bytes \<Rightarrow> jsstring + jsstring" where
  "arrayBufferToBase64 buffer = btoa (map ucast buffer)"

definition base64ToArrayBuffer :: "jsstring \<Rightarrow> jsstring + bytes" where
  "base64ToArrayBuffer base64 =
    (case atob base64 of Inl e \<Rightarrow> Inl e | Inr binaryString \<Rightarrow> Inr (map ucast binaryString))"

subsection \<open>The playback queue\<close>

definition queueAudio :: "client \<Rightarrow> bytes \<Rightarrow> client" where
  "queueAudio c audioData = c\<lparr>audioQueue := audioQueue c @ [audioData]\<rparr>"

text \<open>
  The \<^verbatim>\<open>while\<close> loop of \<^verbatim>\<open>playQueuedAudio\<close>, run until it suspends at the
  \<^verbatim>\<open>await\<close> or leaves the loop. Each turn shifts the head off the queue. The
  \<^verbatim>\<open>try\<close> block then either throws before the \<^verbatim>\<open>await\<close> (the \<^verbatim>\<open>catch\<close>
  logs and the loop goes on at once), or starts the source and suspends. Which of
  the two happens is decided by the platform (\<^verbatim>\<open>new Int16Array\<close>,
  \<^verbatim>\<open>createBuffer\<close>): \<open>plays\<close> is that decision for a chunk; without an audio
  context \<^verbatim>\<open>this.audioContext.createBuffer\<close> throws for every chunk.
\<close>

function drain_loop :: "(bytes \<Rightarrow> bool) \<Rightarrow> client \<Rightarrow> effect list \<times> client" where
  "drain_loop plays c =
    (if audioQueue c = [] then ([], c\<lparr>isPlaying := False\<rparr>)
     else
       (let audioData = hd (audioQueue c);
            c1 = c\<lparr>audioQueue := tl (audioQueue c)\<rparr>
        in if audioContext c \<noteq> None \<and> plays audioData
           then ([SourceStart audioData], c1\<lparr>draining := draining c + 1\<rparr>)
           else (let (es, c2) = drain_loop plays c1 in (PlaybackError audioData # es, c2))))"
  by pat_completeness auto
termination
  by (relation "measure (\<lambda>(plays, c). length (audioQueue c))") auto

declare drain_loop.simps [simp del]

definition playQueuedAudio :: "(bytes \<Rightarrow> bool) \<Rightarrow> client \<Rightarrow> effect list \<times> client" where
  "playQueuedAudio plays c =
    (if isPlaying c \<or> audioQueue c = [] \<or> audioContext c = None then ([], c)
     else drain_loop plays (c\<lparr>isPlaying := True\<rparr>))"

text \<open>
  The source that a suspended loop waits for ends: \<^verbatim>\<open>onended\<close> resolves the
  promise and that loop goes on. Without a suspended loop there is no such event.
\<close>

definition source_ended :: "(bytes \<Rightarrow> bool) \<Rightarrow> client \<Rightarrow> effect list \<times> client" where
  "source_ended plays c =
    (if draining c = 0 then ([], c)
     else drain_loop plays (c\<lparr>draining := draining c - 1\<rparr>))"

datatype player_event = QueueAudio bytes | PlayQueuedAudio | SourceEnded

fun player_step :: "(bytes \<Rightarrow> bool) \<Rightarrow> client \<Rightarrow> player_event \<Rightarrow> effect list \<times> client" where
  "player_step plays c (QueueAudio a) = ([], queueAudio c a)"
| "player_step plays c PlayQueuedAudio = playQueuedAudio plays c"
| "player_step plays c SourceEnded = source_ended plays c"

fun run_events :: "(bytes \<Rightarrow> bool) \<Rightarrow> client \<Rightarrow> player_event list \<Rightarrow> effect list \<times> client" where
  "run_events plays c [] = ([], c)"
| "run_events plays c (e # es) =
     (let (xs, c1) = player_step plays c e; (ys, c2) = run_events plays c1 es
      in (xs @ ys, c2))"

text \<open>The logs read off a run: chunks enqueued, chunks taken off the queue, chunks started.\<close>

fun enqueued :: "player_event list \<Rightarrow> bytes list" where
  "enqueued [] = []"
| "enqueued (QueueAudio a # es) = a # enqueued es"
| "enqueued (e # es) = enqueued es"

fun dequeued :: "effect list \<Rightarrow> bytes list" where
  "dequeued [] = []"
| "dequeued (SourceStart a # es) = a # dequeued es"
| "dequeued (PlaybackError a # es) = a # dequeued es"
| "dequeued (e # es) = dequeued es"

fun started :: "effect list \<Rightarrow> bytes list" where
  "started [] = []"
| "started (SourceStart a # es) = a # started es"
| "started (e # es) = started es"

text \<open>
  A platform that plays the chunks holding at least one whole 16-bit sample and
  nothing else, as an instance of \<open>plays\<close>.
\<close>

definition even_pcm :: "bytes \<Rightarrow> bool" where
  "even_pcm a = (a \<noteq> [] \<and> even (length a))"

text \<open>
  \<open>rejected plays c a\<close>: the \<^verbatim>\<open>try\<close> block throws for chunk \<open>a\<close> in state
  \<open>c\<close>. \<open>single_drain\<close>: at most one activation of the loop is suspended, and
  \<open>isPlaying\<close> says whether one is.
\<close>

definition rejected :: "(bytes \<Rightarrow> bool) \<Rightarrow> client \<Rightarrow> bytes \<Rightarrow> bool" where
  "rejected plays c a = (\<not> (audioContext c \<noteq> None \<and> plays a))"

definition single_drain :: "client \<Rightarrow> bool" where
  "single_drain c = (draining c \<le> 1 \<and> (isPlaying c \<longleftrightarrow> draining c = 1))"

subsection \<open>Inbound frames\<close>

record Blob =
  data :: "jsstring option"
  mimeType :: "jsstring option"

record Part =
  text_field :: "jsstring option"
  inlineData :: "Blob option"

record Content =
  parts :: "Part list option"

record LiveServerContent =
  interrupted :: "bool option"
  turnComplete :: "bool option"
  modelTurn :: "Content option"

datatype LiveServerSetupComplete = LiveServerSetupComplete

record LiveServerMessage =
  setupComplete :: "LiveServerSetupComplete option"
  serverContent :: "LiveServerContent option"

text \<open>
  \<^verbatim>\<open>if (part.text)\<close>: the text of a part, when present and not empty.
  \<^verbatim>\<open>part.inlineData?.data && part.inlineData.mimeType?.startsWith('audio/')\<close>:
  the payload of a part, when present, not empty and tagged with such a MIME type.
\<close>

definition part_text :: "Part \<Rightarrow> jsstring option" where
  "part_text part =
    (case text_field part of None \<Rightarrow> None
     | Some t \<Rightarrow> if truthy t then Some t else None)"

definition part_audio :: "Part \<Rightarrow> jsstring option" where
  "part_audio part =
    (case inlineData part of None \<Rightarrow> None
     | Some blob \<Rightarrow>
        (case data blob of None \<Rightarrow> None
         | Some d \<Rightarrow>
            (case mimeType blob of None \<Rightarrow> None
             | Some m \<Rightarrow> if truthy d \<and> prefix (js ''audio/'') m then Some d else None)))"

text \<open>
  The \<^verbatim>\<open>for\<close> loop over the parts. An exception of \<^verbatim>\<open>atob\<close> is not caught in
  \<open>handleMessage\<close>: it ends the loop, and what was emitted and queued before stays.
\<close>

fun handle_parts :: "client \<Rightarrow> Part list \<Rightarrow> completion \<times> effect list \<times> client" where
  "handle_parts c [] = (Normal, [], c)"
| "handle_parts c (part # rest) =
    (let es = (case part_text part of None \<Rightarrow> []
               | Some t \<Rightarrow> [OnMessage \<lparr>role = Assistant, content = t\<rparr>])
     in case part_audio part of
          None \<Rightarrow> (let (r, es', c') = handle_parts c rest in (r, es @ es', c'))
        | Some d \<Rightarrow>
           (case base64ToArrayBuffer d of
              Inl e \<Rightarrow> (Throw e, es, c)
            | Inr audioData \<Rightarrow>
               (let (r, es', c') = handle_parts (queueAudio c audioData) rest
                in (r, es @ es', c'))))"

definition handleMessage :: "(bytes \<Rightarrow> bool) \<Rightarrow> client \<Rightarrow> LiveServerMessage
    \<Rightarrow> completion \<times> effect list \<times> client" where
  "handleMessage plays c m =
    (if setupComplete m \<noteq> None then (Normal, [], c)
     else case serverContent m of
       None \<Rightarrow> (Normal, [], c)
     | Some sc \<Rightarrow>
        (if interrupted sc = Some True then (Normal, [], c)
         else if turnComplete sc = Some True
           then (let (es, c') = playQueuedAudio plays c in (Normal, es, c'))
         else case modelTurn sc of
           None \<Rightarrow> (Normal, [], c)
         | Some turn \<Rightarrow>
            (case parts turn of
               None \<Rightarrow> (Normal, [], c)
             | Some ps \<Rightarrow> handle_parts c ps)))"

text \<open>
  Names for what \<open>handle_parts\<close> is compared with: the chunk a part contributes
  when its payload decodes, whether the part gets past \<^verbatim>\<open>atob\<close>, the callback
  for an assistant message, and the parts of a frame (none when \<^verbatim>\<open>modelTurn\<close> or
  its \<^verbatim>\<open>parts\<close> is absent).
\<close>

definition part_chunk :: "Part \<Rightarrow> bytes option" where
  "part_chunk part =
    (case part_audio part of None \<Rightarrow> None
     | Some d \<Rightarrow> (case base64ToArrayBuffer d of Inl e \<Rightarrow> None | Inr b \<Rightarrow> Some b))"

definition decodable :: "Part \<Rightarrow> bool" where
  "decodable part =
    (case part_audio part of None \<Rightarrow> True
     | Some d \<Rightarrow> (case base64ToArrayBuffer d of Inl e \<Rightarrow> False | Inr b \<Rightarrow> True))"

definition assistant_message :: "jsstring \<Rightarrow> effect" where
  "assistant_message t = OnMessage \<lparr>role = Assistant, content = t\<rparr>"

definition frame_parts :: "LiveServerContent \<Rightarrow> Part list" where
  "frame_parts sc =
    (case modelTurn sc of None \<Rightarrow> []
     | Some turn \<Rightarrow> (case parts turn of None \<Rightarrow> [] | Some ps \<Rightarrow> ps))"

definition audio_effect :: "effect \<Rightarrow> bool" where
  "audio_effect e = (case e of SourceStart a \<Rightarrow> True | PlaybackError a \<Rightarrow> True | _ \<Rightarrow> False)"

subsection \<open>sendText and disconnect\<close>

text \<open>
  \<open>call outcome\<close> is a call on an SDK or platform object whose outcome the model
  takes as given: it returns (\<open>None\<close>) or throws (\<open>Some e\<close>).
  \<open>try_catch\<close> is \<^verbatim>\<open>try { ... } catch (e) { console.error(...) }\<close>.
\<close>

definition call :: "jsstring option \<Rightarrow> completion" where
  "call outcome = (case outcome of None \<Rightarrow> Normal | Some e \<Rightarrow> Throw e)"

definition try_catch :: "completion \<Rightarrow> completion" where
  "try_catch r = (case r of Normal \<Rightarrow> Normal | Throw e \<Rightarrow> Normal)"

definition sendText :: "jsstring option \<Rightarrow> client \<Rightarrow> jsstring
    \<Rightarrow> completion \<times> effect list \<times> client" where
  "sendText send c txt =
    (if session c = None then (Throw (js ''Not connected to Gemini''), [], c)
     else (call send,
           [OnMessage \<lparr>role = User, content = txt\<rparr>, SendClientContent txt], c))"

definition disconnect :: "jsstring option \<Rightarrow> jsstring option \<Rightarrow> client
    \<Rightarrow> completion \<times> effect list \<times> client" where
  "disconnect session_close context_close c =
    (let (r1, es1, c1) =
           (if session c \<noteq> None
            then (try_catch (call session_close), [SessionClose], c\<lparr>session := None\<rparr>)
            else (Normal, [], c))
     in case r1 of
          Throw e \<Rightarrow> (Throw e, es1, c1)
        | Normal \<Rightarrow>
           (let (r2, es2, c2) =
                  (if audioContext c1 \<noteq> None
                   then (try_catch (call context_close), [AudioContextClose],
                         c1\<lparr>audioContext := None\<rparr>)
                   else (Normal, [], c1))
            in case r2 of
                 Throw e \<Rightarrow> (Throw e, es1 @ es2, c2)
               | Normal \<Rightarrow>
                  (Normal, es1 @ es2 @ [OnStatusChange Disconnected],
                   c2\<lparr>audioQueue := [], isPlaying := False\<rparr>)))"

subsection \<open>The life of a client\<close>

text \<open>
  The events of the playback queue, and beside them \<open>disconnect\<close> and a further
  \<open>connect\<close> on the same client object, each with the outcomes of the calls it
  makes. \<open>enqueued_chunks\<close> is the log of the chunks enqueued, \<open>no_disconnect\<close>
  says that a run stays within one connection, and \<open>orphan_free\<close> that
  \<open>connect\<close> is never called while a drain loop that a \<open>disconnect\<close> left
  behind (suspended, with \<open>isPlaying\<close> reset) is still suspended.
\<close>

datatype client_event =
    Player player_event
  | Disconnect "jsstring option" "jsstring option"
  | Connect "jsstring option" jsstring

fun client_step :: "(bytes \<Rightarrow> bool) \<Rightarrow> client \<Rightarrow> client_event \<Rightarrow> effect list \<times> client" where
  "client_step plays c (Player e) = player_step plays c e"
| "client_step plays c (Disconnect session_close context_close) =
     snd (disconnect session_close context_close c)"
| "client_step plays c (Connect live apiKey) = snd (connect live c apiKey)"

fun run_client :: "(bytes \<Rightarrow> bool) \<Rightarrow> client \<Rightarrow> client_event list \<Rightarrow> effect list \<times> client" where
  "run_client plays c [] = ([], c)"
| "run_client plays c (e # es) =
     (let (xs, c1) = client_step plays c e; (ys, c2) = run_client plays c1 es
      in (xs @ ys, c2))"

fun enqueued_chunks :: "client_event list \<Rightarrow> bytes list" where
  "enqueued_chunks [] = []"
| "enqueued_chunks (Player (QueueAudio a) # es) = a # enqueued_chunks es"
| "enqueued_chunks (e # es) = enqueued_chunks es"

fun no_disconnect :: "client_event list \<Rightarrow> bool" where
  "no_disconnect [] = True"
| "no_disconnect (Disconnect session_close context_close # es) = False"
| "no_disconnect (e # es) = no_disconnect es"

fun orphan_free :: "(bytes \<Rightarrow> bool) \<Rightarrow> client \<Rightarrow> client_event list \<Rightarrow> bool" where
  "orphan_free plays c [] = True"
| "orphan_free plays c (Connect live apiKey # es) =
     ((isPlaying c \<or> draining c = 0)
      \<and> orphan_free plays (snd (client_step plays c (Connect live apiKey))) es)"
| "orphan_free plays c (e # es) = orphan_free plays (snd (client_step plays c e)) es"

text \<open>
  What holds of the drain in every state such a run reaches, and what holds in
  addition within one connection.
\<close>

definition drain_inv :: "client \<Rightarrow> bool" where
  "drain_inv c =
    (draining c \<le> 1 \<and> (isPlaying c \<longrightarrow> draining c = 1)
     \<and> (draining c = 1 \<and> \<not> isPlaying c \<longrightarrow> audioContext c = None))"

definition connected_inv :: "client \<Rightarrow> bool" where
  "connected_inv c = (single_drain c \<and> (audioContext c = None \<longrightarrow> draining c = 0))"

section \<open>The component (components/VoiceChat.tsx)\<close>

text \<open>
  \<^verbatim>\<open>String.prototype.trim\<close> removes the white space and line terminator code
  units of ECMAScript from both ends.
\<close>

definition js_whitespace :: "16 word \<Rightarrow> bool" where
  "js_whitespace c =
    (c = 0x09 \<or> c = 0x0A \<or> c = 0x0B \<or> c = 0x0C \<or> c = 0x0D \<or> c = 0x20 \<or> c = 0xA0
     \<or> c = 0x1680 \<or> (0x2000 \<le> c \<and> c \<le> 0x200A) \<or> c = 0x2028 \<or> c = 0x2029
     \<or> c = 0x202F \<or> c = 0x205F \<or> c = 0x3000 \<or> c = 0xFEFF)"

definition trim :: "jsstring \<Rightarrow> jsstring" where
  "trim s = rev (dropWhile js_whitespace (rev (dropWhile js_whitespace s)))"

text \<open>
  \<open>getApiConfig\<close> (server/api.ts): \<open>env\<close> is \<^verbatim>\<open>process.env.GEMINI_API_KEY\<close>,
  \<open>None\<close> when the variable is not set.
\<close>

definition getApiConfig :: "jsstring option \<Rightarrow> jsstring + jsstring" where
  "getApiConfig env =
    (case env of
       None \<Rightarrow> Inl (js ''GEMINI_API_KEY environment variable is not set'')
     | Some apiKey \<Rightarrow>
        if truthy apiKey then Inr apiKey
        else Inl (js ''GEMINI_API_KEY environment variable is not set''))"

text \<open>
  The state of the component that \<open>connect\<close> and \<open>sendMessage\<close> touch.
  \<open>handlerStatus\<close> is the value of \<^verbatim>\<open>status\<close> that the handlers installed by
  \<open>connect\<close> close over: the status at the time \<open>connect\<close> was called.
\<close>

record ui =
  messages :: "ChatMessage list"
  inputText :: jsstring
  status :: Status
  connectionError :: "ConnectionError option"
  retryCount :: nat
  clientRef :: "client option"
  handlerStatus :: Status

text \<open>The three handlers that \<open>connect\<close> assigns, applied to an effect of the client.\<close>

fun on_effect :: "effect \<Rightarrow> ui \<Rightarrow> ui" where
  "on_effect (OnMessage m) u = u\<lparr>messages := messages u @ [m]\<rparr>"
| "on_effect (OnStatusChange Connected) u =
     u\<lparr>status := Connected, retryCount := 0, connectionError := None\<rparr>"
| "on_effect (OnStatusChange Disconnected) u =
     (if handlerStatus u = Connected
      then u\<lparr>connectionError := Some
              \<lparr>message = js ''Connection Lost'',
               details = Some (js ''The connection was unexpectedly closed. You can try reconnecting.''),
               recoverable = True\<rparr>,
             status := Disconnected\<rparr>
      else u\<lparr>status := Disconnected\<rparr>)"
| "on_effect (OnStatusChange newStatus) u = u\<lparr>status := newStatus\<rparr>"
| "on_effect (OnError e) u = u\<lparr>connectionError := Some (parseError e), status := Error\<rparr>"
| "on_effect other u = u"

definition VoiceChat_connect :: "jsstring option \<Rightarrow> jsstring option \<Rightarrow> ui
    \<Rightarrow> effect list \<times> ui" where
  "VoiceChat_connect env live u =
    (let u1 = u\<lparr>connectionError := None, status := Connecting\<rparr> in
     case getApiConfig env of
       Inl e \<Rightarrow> ([], u1\<lparr>connectionError := Some (parseError e), status := Error\<rparr>)
     | Inr apiKey \<Rightarrow>
        (let (r, es, c) = connect live new_client apiKey;
             u2 = (fold on_effect es (u1\<lparr>handlerStatus := status u\<rparr>))
                    \<lparr>clientRef := Some c\<rparr>
         in case r of
              Normal \<Rightarrow> (es, u2)
            | Throw e \<Rightarrow> (es, u2\<lparr>connectionError := Some (parseError e), status := Error\<rparr>)))"

definition sendMessage :: "jsstring option \<Rightarrow> ui \<Rightarrow> effect list \<times> ui" where
  "sendMessage send u =
    (if \<not> truthy (trim (inputText u)) \<or> clientRef u = None \<or> status u \<noteq> Connected
     then ([], u)
     else case clientRef u of
       None \<Rightarrow> ([], u)
     | Some c \<Rightarrow>
        (let (r, es, c') = sendText send c (trim (inputText u));
             u1 = (fold on_effect es u)\<lparr>clientRef := Some c'\<rparr>
         in case r of
              Normal \<Rightarrow> (es, u1\<lparr>inputText := []\<rparr>)
            | Throw e \<Rightarrow> (es, u1\<lparr>connectionError := Some (parseError e)\<rparr>)))"

section \<open>Properties of the error classifier\<close>

lemma str_includes_sublist: "str_includes h n \<longleftrightarrow> sublist n h"
  by (induction h) (auto simp: sublist_Cons_right)

text \<open>
  C1 (as stated, refuted): a message that contains "429" is not always classified as
  "Rate Limited". The message "network error 429" contains "429", but the
  connection rule comes first and answers "Connection Failed".
\<close>

theorem parseError_429_counterexample:
  "str_includes (js ''network error 429'') (js ''429'')
   \<and> message (parseError (js ''network error 429'')) = js ''Connection Failed''
   \<and> message (parseError (js ''network error 429'')) \<noteq> js ''Rate Limited''"
  by (simp add: parseError_def js_def)

text \<open>
  C1 (amended): a message that contains "429" and none of the needles of the three
  rules tried before the rate-limit rule (API key, connection, authentication) is
  classified as "Rate Limited" with \<open>recoverable = True\<close>.
\<close>

theorem parseError_429_rate_limited:
  assumes "str_includes msg (js ''429'')"
    and "\<not> str_includes msg (js ''API_KEY'')" "\<not> str_includes msg (js ''apiKey'')"
    and "\<not> str_includes msg (js ''environment variable'')"
    and "\<not> str_includes msg (js ''WebSocket'')" "\<not> str_includes msg (js ''connection'')"
    and "\<not> str_includes msg (js ''network'')"
    and "\<not> str_includes msg (js ''401'')" "\<not> str_includes msg (js ''403'')"
    and "\<not> str_includes msg (js ''unauthorized'')" "\<not> str_includes msg (js ''forbidden'')"
  shows "message (parseError msg) = js ''Rate Limited'' \<and> recoverable (parseError msg)"
  using assms by (simp add: parseError_def)

theorem parseError_429_rate_limited_witness:
  "str_includes (js ''HTTP 429 Too Many Requests'') (js ''429'')
   \<and> message (parseError (js ''HTTP 429 Too Many Requests'')) = js ''Rate Limited''
   \<and> recoverable (parseError (js ''HTTP 429 Too Many Requests''))"
proof -
  have "str_includes (js ''HTTP 429 Too Many Requests'') (js ''429'')"
    by (simp add: js_def)
  moreover have "message (parseError (js ''HTTP 429 Too Many Requests'')) = js ''Rate Limited''
      \<and> recoverable (parseError (js ''HTTP 429 Too Many Requests''))"
    by (rule parseError_429_rate_limited) (simp_all add: js_def)
  ultimately show ?thesis by simp
qed

text \<open>
  C2 (as stated, refuted): the matching is not case-insensitive. "Network error"
  contains "network" once letter case is ignored, so the classifier of the
  specification answers "Connection Failed"; the code compares code units exactly,
  no rule matches, and the default rule answers "Connection Error" with the message
  itself as details. Nor is every message with "network" and "429" classified as
  "Connection Failed": with "API_KEY" in it as well, the API-key rule wins.
\<close>

theorem parseError_case_counterexample:
  "includes_nocase (js ''Network error'') (js ''network'')
   \<and> message (classify_nocase (js ''Network error'')) = js ''Connection Failed''
   \<and> parseError (js ''Network error'') =
       \<lparr>message = js ''Connection Error'', details = Some (js ''Network error''),
        recoverable = True\<rparr>
   \<and> str_includes (js ''API_KEY network 429'') (js ''network'')
   \<and> str_includes (js ''API_KEY network 429'') (js ''429'')
   \<and> message (parseError (js ''API_KEY network 429'')) = js ''API Key Not Configured''
   \<and> \<not> recoverable (parseError (js ''API_KEY network 429''))"
  by (simp add: parseError_def classify_nocase_def rule_table_def includes_nocase_def
      ascii_lower_def default_error_def truthy_def js_def)

text \<open>
  C2 (amended): \<open>parseError\<close> is a function of the message text alone and is the
  first-match evaluation of the six-rule table in the listed order, with needles
  compared case-sensitively. A message that contains both "network" and "429", and
  no needle of the API-key rule, is classified as "Connection Failed" with
  \<open>recoverable = True\<close>, not as "Rate Limited".
\<close>

theorem parseError_first_match:
  "parseError msg = classify_exact msg
   \<and> (str_includes msg (js ''network'') \<and> str_includes msg (js ''429'')
        \<and> \<not> str_includes msg (js ''API_KEY'') \<and> \<not> str_includes msg (js ''apiKey'')
        \<and> \<not> str_includes msg (js ''environment variable'')
      \<longrightarrow> message (parseError msg) = js ''Connection Failed'' \<and> recoverable (parseError msg))"
  by (simp add: parseError_def classify_exact_def rule_table_def default_error_def)

theorem parseError_first_match_witness:
  "str_includes (js ''429 on network'') (js ''network'')
   \<and> str_includes (js ''429 on network'') (js ''429'')
   \<and> parseError (js ''429 on network'') = classify_exact (js ''429 on network'')
   \<and> message (parseError (js ''429 on network'')) = js ''Connection Failed''
   \<and> recoverable (parseError (js ''429 on network''))"
proof -
  have inc: "str_includes (js ''429 on network'') (js ''network'')"
    "str_includes (js ''429 on network'') (js ''429'')"
    by (simp_all add: js_def)
  have exc: "\<not> str_includes (js ''429 on network'') (js ''API_KEY'')"
    "\<not> str_includes (js ''429 on network'') (js ''apiKey'')"
    "\<not> str_includes (js ''429 on network'') (js ''environment variable'')"
    by (simp_all add: js_def)
  from parseError_first_match [of "js ''429 on network''"] inc exc
  show ?thesis by blast
qed

section \<open>Properties of the base64 codec\<close>

lemma padding_simps:
  "padding (length (a # b # c # rest)) = padding (length rest)"
  "padding (length [a, b]) = [b64_pad]"
  "padding (length [a]) = [b64_pad, b64_pad]"
  "padding (length []) = []"
  by (simp_all add: padding_def numeral_2_eq_2)

lemma encode_groups_split:
  "encode_groups ns = map b64_char (sextets ns) @ padding (length ns)"
proof (induction ns rule: sextets.induct)
  case (1 a b c rest)
  from "1.IH" [OF refl] show ?case
    by (simp only: encode_groups.simps sextets.simps Let_def padding_simps list.map
        append_Cons append_Nil map_append append_assoc)
next
  case (2 a b)
  show ?case
    by (simp only: encode_groups.simps sextets.simps Let_def padding_simps list.map
        append_Cons append_Nil)
next
  case (3 a)
  show ?case
    by (simp only: encode_groups.simps sextets.simps Let_def padding_simps list.map
        append_Cons append_Nil)
next
  case 4
  show ?case
    by (simp only: encode_groups.simps sextets.simps padding_simps list.map append_Nil)
qed

lemma div_4096: "(n::nat) div 4096 = n div 64 div 64"
  by (simp add: div_mult2_eq [symmetric])

lemma div_262144: "(n::nat) div 262144 = n div 64 div 64 div 64"
  by (simp add: div_mult2_eq [symmetric])

lemma div_65536: "(n::nat) div 65536 = n div 256 div 256"
  by (simp add: div_mult2_eq [symmetric])

lemma group_sextets:
  "((n div 262144 * 64 + n div 4096 mod 64) * 64 + n div 64 mod 64) * 64 + n mod 64 = (n::nat)"
  unfolding div_4096 div_262144 by (simp only: div_mult_mod_eq)

lemma shift_div: "c < 256 \<Longrightarrow> (x * 256 + c) div 256 = (x::nat)"
  by simp

lemma shift_mod: "c < 256 \<Longrightarrow> (x * 256 + c) mod 256 = (c::nat)"
  by simp

lemma bytes3:
  assumes "b < 256" "c < 256"
  shows "((a * 256 + b) * 256 + c) div 65536 = (a::nat)"
    and "((a * 256 + b) * 256 + c) div 256 mod 256 = b"
    and "((a * 256 + b) * 256 + c) mod 256 = c"
  unfolding div_65536 by (simp_all only: shift_div shift_mod assms)

lemma group3:
  assumes "b < 256" "c < 256"
  shows "decode_groups (sextets (a # b # c # rest)) = a # b # c # decode_groups (sextets rest)"
proof -
  define n where "n = (a * 256 + b) * 256 + c"
  have "sextets (a # b # c # rest) =
      n div 262144 # n div 4096 mod 64 # n div 64 mod 64 # n mod 64 # sextets rest"
    by (simp only: sextets.simps Let_def n_def append_Cons append_Nil)
  then have "decode_groups (sextets (a # b # c # rest)) =
      n div 65536 # n div 256 mod 256 # n mod 256 # decode_groups (sextets rest)"
    by (simp only: decode_groups.simps Let_def group_sextets append_Cons append_Nil)
  then show ?thesis
    unfolding n_def by (simp only: bytes3 [OF assms])
qed

lemma group2:
  assumes "b < 256"
  shows "decode_groups (sextets [a, b]) = [a, b]"
proof -
  define n where "n = (a * 256 + b) * 256"
  have s: "sextets [a, b] = [n div 262144, n div 4096 mod 64, n div 64 mod 64]"
    by (simp only: sextets.simps Let_def n_def)
  have "(n div 262144 * 64 + n div 4096 mod 64) * 64 + n div 64 mod 64 = n div 64"
    unfolding div_4096 div_262144 by (simp only: div_mult_mod_eq)
  moreover have "n div 64 div 4 = n div 256"
    by (simp add: div_mult2_eq [symmetric])
  moreover have "n div 256 = a * 256 + b"
    unfolding n_def by simp
  ultimately have "decode_groups (sextets [a, b]) = [(a * 256 + b) div 256, (a * 256 + b) mod 256]"
    unfolding s by (simp only: decode_groups.simps Let_def)
  then show ?thesis by (simp only: shift_div shift_mod assms)
qed

lemma group1: "decode_groups (sextets [a]) = [a]"
proof -
  define n where "n = a * 65536"
  have s: "sextets [a] = [n div 262144, n div 4096 mod 64]"
    by (simp only: sextets.simps Let_def n_def)
  have "n div 262144 * 64 + n div 4096 mod 64 = n div 4096"
    unfolding div_4096 div_262144 by (simp only: div_mult_mod_eq)
  moreover have "n div 4096 div 16 = n div 65536"
    by (simp add: div_mult2_eq [symmetric])
  moreover have "n div 65536 = a"
    by (simp add: n_def)
  ultimately show ?thesis
    unfolding s by (simp only: decode_groups.simps)
qed

lemma decode_sextets:
  "\<forall>x \<in> set ns. x < 256 \<Longrightarrow> decode_groups (sextets ns) = ns"
proof (induction ns rule: sextets.induct)
  case (1 a b c rest)
  from "1.prems" have lt: "b < 256" "c < 256" and rest: "\<forall>x \<in> set rest. x < 256"
    by simp_all
  from "1.IH" [OF refl rest] show ?case
    by (simp only: group3 [OF lt])
next
  case (2 a b)
  then have "b < 256" by simp
  then show ?case by (rule group2)
next
  case (3 a)
  show ?case by (rule group1)
next
  case 4
  show ?case by simp
qed

lemma b64_alphabet_length: "length b64_alphabet = 64"
  by (simp add: b64_alphabet_def js_def)

lemma b64_alphabet_distinct: "distinct b64_alphabet"
  by (simp add: b64_alphabet_def js_def)

lemma b64_alphabet_plain:
  "\<forall>c \<in> set b64_alphabet. \<not> ascii_whitespace c \<and> c \<noteq> b64_pad"
  by (simp add: b64_alphabet_def js_def ascii_whitespace_def b64_pad_def)

lemma b64_index_nth:
  "distinct xs \<Longrightarrow> n < length xs \<Longrightarrow> b64_index xs (xs ! n) = Some n"
proof (induction xs arbitrary: n)
  case Nil
  then show ?case by simp
next
  case (Cons a xs)
  show ?case
  proof (cases n)
    case 0
    then show ?thesis by simp
  next
    case (Suc m)
    with Cons.prems have "xs ! m \<noteq> a" by auto
    with Suc Cons show ?thesis by simp
  qed
qed

lemma b64_char_in: "b64_char n \<in> set b64_alphabet"
  by (simp add: b64_char_def b64_alphabet_length)

lemma b64_char_plain: "\<not> ascii_whitespace (b64_char n)" "b64_char n \<noteq> b64_pad"
  using b64_alphabet_plain b64_char_in [of n] by blast+

lemma b64_index_char: "n < 64 \<Longrightarrow> b64_index b64_alphabet (b64_char n) = Some n"
  by (simp add: b64_char_def b64_index_nth b64_alphabet_distinct b64_alphabet_length)

lemma those_index:
  "\<forall>x \<in> set xs. x < 64 \<Longrightarrow>
     those (map (b64_index b64_alphabet) (map b64_char xs)) = Some xs"
  by (induction xs) (simp_all add: b64_index_char)

lemma pad_plain: "\<not> ascii_whitespace b64_pad"
  by (simp add: ascii_whitespace_def b64_pad_def)

lemma replicate_two: "replicate 2 x = [x, x]"
  by (simp add: numeral_2_eq_2)

lemma padding_cases:
  "padding n = [] \<or> padding n = [b64_pad] \<or> padding n = [b64_pad, b64_pad]"
proof -
  have "n mod 3 < 3" by simp
  then consider "n mod 3 = 0" | "n mod 3 = 1" | "n mod 3 = 2" by linarith
  then show ?thesis
  proof cases
    case 1
    then show ?thesis by (simp add: padding_def)
  next
    case 2
    then show ?thesis by (simp add: padding_def replicate_two)
  next
    case 3
    then show ?thesis by (simp add: padding_def)
  qed
qed

lemma padding_Nil: "padding 0 = []"
  by (simp add: padding_def)

lemma mod4_step: "Suc (Suc (Suc (Suc n))) mod 4 = n mod 4"
  by presburger

lemma sextets_length:
  "length (sextets (a # b # c # rest)) = Suc (Suc (Suc (Suc (length (sextets rest)))))"
  "length (sextets [a, b]) = 3"
  "length (sextets [a]) = 2"
  by (simp_all only: sextets.simps Let_def append_Cons append_Nil length_Cons list.size)

lemma sextets_length_mod: "length (sextets ns) mod 4 \<noteq> 1"
proof (induction ns rule: sextets.induct)
  case (1 a b c rest)
  from "1.IH" [OF refl] show ?case
    by (simp add: sextets_length mod4_step del: sextets.simps)
next
  case (2 a b)
  show ?case by (simp add: sextets_length del: sextets.simps)
next
  case (3 a)
  show ?case by (simp add: sextets_length del: sextets.simps)
next
  case 4
  show ?case by simp
qed

lemma sextets_Nil: "sextets ns = [] \<longleftrightarrow> ns = []"
proof (cases ns rule: sextets.cases)
  case (1 a b c rest)
  have "length (sextets (a # b # c # rest)) \<noteq> 0"
    by (simp add: sextets_length del: sextets.simps)
  with 1 show ?thesis by auto
next
  case (2 a b)
  have "length (sextets [a, b]) \<noteq> 0"
    by (simp add: sextets_length del: sextets.simps)
  with 2 show ?thesis by auto
next
  case (3 a)
  have "length (sextets [a]) \<noteq> 0"
    by (simp add: sextets_length del: sextets.simps)
  with 3 show ?thesis by auto
next
  case 4
  then show ?thesis by simp
qed

lemma first_sextet:
  "a < 256 \<Longrightarrow> b < 256 \<Longrightarrow> c < 256 \<Longrightarrow> ((a * 256 + b) * 256 + c) div 262144 < (64::nat)"
proof (rule less_mult_imp_div_less)
  assume "a < 256" "b < 256" "c < 256"
  then have "a * 256 + b \<le> 65535" by linarith
  then have "(a * 256 + b) * 256 \<le> 65535 * 256" by (rule mult_le_mono1)
  then have "(a * 256 + b) * 256 \<le> 16776960" by simp
  with \<open>c < 256\<close> have "(a * 256 + b) * 256 + c < 16777216" by linarith
  then show "(a * 256 + b) * 256 + c < 64 * 262144" by simp
qed

lemma sextets_bound:
  "\<forall>x \<in> set ns. x < 256 \<Longrightarrow> \<forall>s \<in> set (sextets ns). s < 64"
proof (induction ns rule: sextets.induct)
  case (1 a b c rest)
  from "1.prems" have lt: "a < 256" "b < 256" "c < 256" and rest: "\<forall>x \<in> set rest. x < 256"
    by simp_all
  define n where "n = (a * 256 + b) * 256 + c"
  have s: "sextets (a # b # c # rest) =
      n div 262144 # n div 4096 mod 64 # n div 64 mod 64 # n mod 64 # sextets rest"
    by (simp only: sextets.simps Let_def n_def append_Cons append_Nil)
  have "n div 262144 < 64" unfolding n_def using lt by (rule first_sextet)
  with "1.IH" [OF refl rest] show ?case
    unfolding s by simp
next
  case (2 a b)
  then have lt: "a < 256" "b < 256" by simp_all
  define n where "n = (a * 256 + b) * 256"
  have s: "sextets [a, b] = [n div 262144, n div 4096 mod 64, n div 64 mod 64]"
    by (simp only: sextets.simps Let_def n_def)
  have "n div 262144 < 64"
    using first_sextet [OF lt, of 0] by (simp only: n_def add_0_right)
  then show ?case unfolding s by simp
next
  case (3 a)
  then have lt: "a < 256" by simp
  define n where "n = a * 65536"
  have s: "sextets [a] = [n div 262144, n div 4096 mod 64]"
    by (simp only: sextets.simps Let_def n_def)
  have "n div 262144 < 64"
    unfolding n_def by (rule less_mult_imp_div_less) (use lt in linarith)
  then show ?case unfolding s by simp
next
  case 4
  show ?case by simp
qed

lemma encode_length: "length (encode_groups ns) mod 4 = 0"
proof (induction ns rule: encode_groups.induct)
  case (1 a b c rest)
  from "1.IH" [OF refl] show ?case
    by (simp only: encode_groups.simps Let_def append_Cons append_Nil length_Cons mod4_step)
next
  case (2 a b)
  show ?case
    by (simp only: encode_groups.simps Let_def length_Cons list.size) simp
next
  case (3 a)
  show ?case
    by (simp only: encode_groups.simps Let_def length_Cons list.size) simp
next
  case 4
  show ?case by simp
qed

lemma byte_bound: "unat (b :: 8 word) < 256"
  using unsigned_less [of b, where 'a = nat] by simp

lemma unat_widen: "unat (ucast (b :: 8 word) :: 16 word) = unat b"
  using byte_bound [of b] by (simp add: unsigned_ucast_eq take_bit_nat_eq_self)

lemma widen_small: "\<not> 255 < (ucast (b :: 8 word) :: 16 word)"
  using byte_bound [of b] by (simp add: word_less_nat_alt unat_widen)

lemma narrow_widen: "(ucast (of_nat (unat (b :: 8 word)) :: 16 word) :: 8 word) = b"
  by (simp add: ucast_up_ucast_id is_up)

lemma encode_plain: "\<forall>c \<in> set (encode_groups ns). \<not> ascii_whitespace c"
  using padding_cases [of "length ns"]
  by (auto simp: encode_groups_split b64_char_plain pad_plain)

lemma strip_body:
  "strip_padding (encode_groups ns) = map b64_char (sextets ns)"
proof -
  let ?body = "map b64_char (sextets ns)"
  have len: "length (?body @ padding (length ns)) mod 4 = 0"
    using encode_length [of ns] by (simp only: encode_groups_split)
  have last_plain: "last ?body \<noteq> b64_pad" if "?body \<noteq> []"
    using that by (simp add: last_map b64_char_plain)
  have body_ne: "?body \<noteq> []" if "padding (length ns) \<noteq> []"
  proof -
    from that have "ns \<noteq> []" by (auto simp: padding_Nil)
    then show ?thesis by (simp add: sextets_Nil)
  qed
  from padding_cases [of "length ns"] show ?thesis
  proof (elim disjE)
    assume p: "padding (length ns) = []"
    show ?thesis
      using last_plain by (auto simp: encode_groups_split p strip_padding_def)
  next
    assume p: "padding (length ns) = [b64_pad]"
    with body_ne have ne: "?body \<noteq> []" by simp
    from len p have "length (?body @ [b64_pad]) mod 4 = 0" by simp
    with ne last_plain show ?thesis
      by (simp add: encode_groups_split p strip_padding_def butlast_append)
  next
    assume p: "padding (length ns) = [b64_pad, b64_pad]"
    from len p have "length (?body @ [b64_pad, b64_pad]) mod 4 = 0" by simp
    then show ?thesis
      by (simp add: encode_groups_split p strip_padding_def butlast_append)
  qed
qed

lemma atob_encode:
  assumes "\<forall>x \<in> set ns. x < 256"
  shows "atob (encode_groups ns) = Inr (map of_nat ns)"
proof -
  have f: "filter (\<lambda>c. \<not> ascii_whitespace c) (encode_groups ns) = encode_groups ns"
    using encode_plain [of ns] by (simp add: filter_id_conv)
  have l: "length (map b64_char (sextets ns)) mod 4 \<noteq> 1"
    using sextets_length_mod [of ns] by simp
  have t: "those (map (b64_index b64_alphabet) (map b64_char (sextets ns))) = Some (sextets ns)"
    using sextets_bound [OF assms] by (rule those_index)
  show ?thesis
    unfolding atob_def f strip_body Let_def t using l
    by (simp add: decode_sextets [OF assms])
qed

lemma base64_test_vectors:
  "arrayBufferToBase64 [] = Inr []"
  "arrayBufferToBase64 [102] = Inr (js ''Zg=='')"
  "arrayBufferToBase64 [102, 111] = Inr (js ''Zm8='')"
  "arrayBufferToBase64 [102, 111, 111] = Inr (js ''Zm9v'')"
  "base64ToArrayBuffer (js ''Zm9v'') = Inr [102, 111, 111]"
  by (simp_all add: arrayBufferToBase64_def base64ToArrayBuffer_def btoa_def atob_def
      strip_padding_def ascii_whitespace_def b64_char_def b64_pad_def b64_alphabet_def js_def)


text \<open>
  C9: for every byte buffer, of any size (0, 1, 1024 and 65536 bytes included),
  \<open>arrayBufferToBase64\<close> returns a string, and \<open>base64ToArrayBuffer\<close> of that
  string returns the same bytes.
\<close>

theorem base64_roundtrip:
  "\<exists>s. arrayBufferToBase64 buffer = Inr s \<and> base64ToArrayBuffer s = Inr buffer"
proof -
  have small: "\<not> list_ex (\<lambda>c. 255 < c) (map ucast buffer :: jsstring)"
    by (simp add: list_ex_iff widen_small)
  have ns: "map unat (map ucast buffer :: jsstring) = map unat buffer"
    by (simp add: unat_widen)
  have enc: "arrayBufferToBase64 buffer = Inr (encode_groups (map unat buffer))"
    unfolding arrayBufferToBase64_def btoa_def using small by (simp only: ns if_False)
  have "\<forall>x \<in> set (map unat buffer). x < 256"
    by (simp add: byte_bound)
  then have "atob (encode_groups (map unat buffer)) = Inr (map of_nat (map unat buffer))"
    by (rule atob_encode)
  then have dec: "base64ToArrayBuffer (encode_groups (map unat buffer)) = Inr buffer"
    by (simp add: base64ToArrayBuffer_def narrow_widen map_idI del: of_nat_unat)
  from enc dec show ?thesis by blast
qed

theorem base64_roundtrip_witness:
  "arrayBufferToBase64 [102, 111] = Inr (js ''Zm8='')
   \<and> base64ToArrayBuffer (js ''Zm8='') = Inr [102, 111]"
proof -
  have e: "arrayBufferToBase64 [102, 111] = Inr (js ''Zm8='')"
    by (rule base64_test_vectors)
  from base64_roundtrip [of "[102, 111]"] e show ?thesis by auto
qed

section \<open>Properties of the live client\<close>

lemma js_nonempty: "s \<noteq> [] \<Longrightarrow> js s \<noteq> []"
  by (simp add: js_def)

subsection \<open>The playback queue\<close>

lemma rejected_queue [simp]: "rejected plays (c\<lparr>audioQueue := q\<rparr>) = rejected plays c"
  by (simp add: rejected_def fun_eq_iff)

lemma rejected_isPlaying [simp]: "rejected plays (c\<lparr>isPlaying := b\<rparr>) = rejected plays c"
  by (simp add: rejected_def fun_eq_iff)

lemma rejected_draining [simp]: "rejected plays (c\<lparr>draining := n\<rparr>) = rejected plays c"
  by (simp add: rejected_def fun_eq_iff)

lemma drain_loop_closed_aux:
  "audioQueue c = xs \<Longrightarrow> drain_loop plays c =
    (if dropWhile (rejected plays c) xs = []
     then (map PlaybackError xs, c\<lparr>audioQueue := [], isPlaying := False\<rparr>)
     else (map PlaybackError (takeWhile (rejected plays c) xs)
             @ [SourceStart (hd (dropWhile (rejected plays c) xs))],
           c\<lparr>audioQueue := tl (dropWhile (rejected plays c) xs),
             draining := draining c + 1\<rparr>))"
proof (induction xs arbitrary: c)
  case Nil
  then show ?case by (subst drain_loop.simps) simp
next
  case (Cons a q)
  show ?case
  proof (cases "rejected plays c a")
    case False
    with Cons.prems show ?thesis
      by (subst drain_loop.simps) (simp add: rejected_def)
  next
    case True
    from True Cons.prems have step: "drain_loop plays c =
        (PlaybackError a # fst (drain_loop plays (c\<lparr>audioQueue := q\<rparr>)),
         snd (drain_loop plays (c\<lparr>audioQueue := q\<rparr>)))"
      by (subst drain_loop.simps) (auto simp: Let_def rejected_def split_beta)
    have ih: "drain_loop plays (c\<lparr>audioQueue := q\<rparr>) =
      (if dropWhile (rejected plays c) q = []
       then (map PlaybackError q, c\<lparr>audioQueue := [], isPlaying := False\<rparr>)
       else (map PlaybackError (takeWhile (rejected plays c) q)
               @ [SourceStart (hd (dropWhile (rejected plays c) q))],
             c\<lparr>audioQueue := tl (dropWhile (rejected plays c) q),
               draining := draining c + 1\<rparr>))"
      using Cons.IH [of "c\<lparr>audioQueue := q\<rparr>"] by simp
    from True show ?thesis
      unfolding step ih by simp
  qed
qed

lemma drain_loop_closed:
  "drain_loop plays c =
    (if dropWhile (rejected plays c) (audioQueue c) = []
     then (map PlaybackError (audioQueue c), c\<lparr>audioQueue := [], isPlaying := False\<rparr>)
     else (map PlaybackError (takeWhile (rejected plays c) (audioQueue c))
             @ [SourceStart (hd (dropWhile (rejected plays c) (audioQueue c)))],
           c\<lparr>audioQueue := tl (dropWhile (rejected plays c) (audioQueue c)),
             draining := draining c + 1\<rparr>))"
  by (rule drain_loop_closed_aux [OF refl])

lemma dequeued_append: "dequeued (xs @ ys) = dequeued xs @ dequeued ys"
  by (induction xs rule: dequeued.induct) simp_all

lemma started_append: "started (xs @ ys) = started xs @ started ys"
  by (induction xs rule: started.induct) simp_all

lemma dequeued_errors: "dequeued (map PlaybackError xs) = xs"
  by (induction xs) simp_all

lemma started_errors: "started (map PlaybackError xs) = []"
  by (induction xs) simp_all

lemma drain_loop_effects:
  "list_all audio_effect (fst (drain_loop plays c))
   \<and> suffix (audioQueue (snd (drain_loop plays c))) (audioQueue c)"
proof -
  have "suffix (dropWhile (rejected plays c) (audioQueue c)) (audioQueue c)"
    by (rule suffix_dropWhile)
  then have "suffix (tl (dropWhile (rejected plays c) (audioQueue c))) (audioQueue c)"
    by (rule suffix_order.trans [OF suffix_tl])
  then show ?thesis
    by (simp add: drain_loop_closed list_all_iff audio_effect_def)
qed

lemma playQueuedAudio_effects:
  "list_all audio_effect (fst (playQueuedAudio plays c))
   \<and> suffix (audioQueue (snd (playQueuedAudio plays c))) (audioQueue c)"
  using drain_loop_effects [of plays "c\<lparr>isPlaying := True\<rparr>"]
  by (simp add: playQueuedAudio_def)

lemma drain_loop_fifo:
  "dequeued (fst (drain_loop plays c)) @ audioQueue (snd (drain_loop plays c)) = audioQueue c"
proof (cases "dropWhile (rejected plays c) (audioQueue c) = []")
  case True
  then show ?thesis by (simp add: drain_loop_closed dequeued_errors)
next
  case False
  then have "takeWhile (rejected plays c) (audioQueue c)
      @ hd (dropWhile (rejected plays c) (audioQueue c))
      # tl (dropWhile (rejected plays c) (audioQueue c)) = audioQueue c"
    by simp
  with False show ?thesis
    by (simp add: drain_loop_closed dequeued_append dequeued_errors)
qed

lemma drain_loop_started:
  "started (fst (drain_loop plays c))
     = filter (\<lambda>a. \<not> rejected plays c a) (dequeued (fst (drain_loop plays c)))"
proof (cases "dropWhile (rejected plays c) (audioQueue c) = []")
  case True
  then have "\<forall>a \<in> set (audioQueue c). rejected plays c a"
    by (simp add: dropWhile_eq_Nil_conv)
  with True show ?thesis
    by (simp add: drain_loop_closed dequeued_errors started_errors filter_empty_conv)
next
  case False
  then have h: "\<not> rejected plays c (hd (dropWhile (rejected plays c) (audioQueue c)))"
    by (rule hd_dropWhile)
  have "filter (\<lambda>a. \<not> rejected plays c a) (takeWhile (rejected plays c) (audioQueue c)) = []"
    by (auto simp: filter_empty_conv dest: set_takeWhileD)
  with False h show ?thesis
    by (simp add: drain_loop_closed dequeued_append dequeued_errors started_append started_errors)
qed

lemma drain_loop_context [simp]:
  "audioContext (snd (drain_loop plays c)) = audioContext c"
  by (simp add: drain_loop_closed)

lemma drain_loop_single_playing:
  "draining c = 0 \<Longrightarrow> isPlaying c \<Longrightarrow> single_drain (snd (drain_loop plays c))"
  by (simp add: drain_loop_closed single_drain_def)

lemma step_fifo:
  "dequeued (fst (player_step plays c e)) @ audioQueue (snd (player_step plays c e))
     = audioQueue c @ enqueued [e]"
  by (cases e)
    (simp_all add: queueAudio_def playQueuedAudio_def source_ended_def
      drain_loop_fifo [of plays "c\<lparr>isPlaying := True\<rparr>", simplified]
      drain_loop_fifo [of plays "c\<lparr>draining := draining c - 1\<rparr>", simplified])

lemma step_started:
  "started (fst (player_step plays c e))
     = filter (\<lambda>a. \<not> rejected plays c a) (dequeued (fst (player_step plays c e)))"
  by (cases e)
    (simp_all add: playQueuedAudio_def source_ended_def
      drain_loop_started [of plays "c\<lparr>isPlaying := True\<rparr>", simplified]
      drain_loop_started [of plays "c\<lparr>draining := draining c - 1\<rparr>", simplified])

lemma step_context [simp]:
  "audioContext (snd (player_step plays c e)) = audioContext c"
  by (cases e) (simp_all add: queueAudio_def playQueuedAudio_def source_ended_def)

lemma step_rejected [simp]:
  "rejected plays (snd (player_step plays c e)) = rejected plays c"
  by (simp add: rejected_def fun_eq_iff)

lemma step_single:
  "single_drain c \<Longrightarrow> single_drain (snd (player_step plays c e))"
proof (cases e)
  case (QueueAudio a)
  assume "single_drain c"
  with QueueAudio show ?thesis by (simp add: queueAudio_def single_drain_def)
next
  case PlayQueuedAudio
  assume s: "single_drain c"
  show ?thesis
  proof (cases "isPlaying c \<or> audioQueue c = [] \<or> audioContext c = None")
    case True
    with s PlayQueuedAudio show ?thesis by (simp add: playQueuedAudio_def)
  next
    case False
    with s have "draining (c\<lparr>isPlaying := True\<rparr>) = 0" "isPlaying (c\<lparr>isPlaying := True\<rparr>)"
      by (auto simp: single_drain_def)
    from drain_loop_single_playing [OF this, of plays] False PlayQueuedAudio show ?thesis
      by (auto simp: playQueuedAudio_def)
  qed
next
  case SourceEnded
  assume s: "single_drain c"
  show ?thesis
  proof (cases "draining c = 0")
    case True
    with s SourceEnded show ?thesis by (simp add: source_ended_def)
  next
    case False
    with s have "draining (c\<lparr>draining := draining c - 1\<rparr>) = 0"
      "isPlaying (c\<lparr>draining := draining c - 1\<rparr>)"
      by (auto simp: single_drain_def)
    from drain_loop_single_playing [OF this, of plays] False SourceEnded show ?thesis
      by (auto simp: source_ended_def)
  qed
qed

lemma run_started:
  "started (fst (run_events plays c evs))
     = filter (\<lambda>a. \<not> rejected plays c a) (dequeued (fst (run_events plays c evs)))"
proof (induction evs arbitrary: c)
  case Nil
  show ?case by simp
next
  case (Cons e evs)
  from Cons [of "snd (player_step plays c e)"] step_started [of plays c e]
  show ?case
    by (simp add: split_beta dequeued_append started_append)
qed

lemma ended_run:
  "draining c = 1 \<or> (draining c = 0 \<and> audioQueue c = [] \<and> \<not> isPlaying c) \<Longrightarrow>
   (draining c = 1 \<longrightarrow> length (audioQueue c) < n) \<Longrightarrow>
   dequeued (fst (run_events plays c (replicate n SourceEnded))) = audioQueue c
   \<and> audioQueue (snd (run_events plays c (replicate n SourceEnded))) = []
   \<and> \<not> isPlaying (snd (run_events plays c (replicate n SourceEnded)))
   \<and> draining (snd (run_events plays c (replicate n SourceEnded))) = 0"
proof (induction n arbitrary: c)
  case 0
  then show ?case by auto
next
  case (Suc n)
  show ?case
  proof (cases "draining c = 1")
    case False
    with Suc.prems have idle: "draining c = 0" "audioQueue c = []" "\<not> isPlaying c" by auto
    then have "source_ended plays c = ([], c)" by (simp add: source_ended_def)
    with Suc.IH [of c] idle show ?thesis by (simp add: split_beta)
  next
    case True
    let ?c0 = "c\<lparr>draining := 0\<rparr>"
    let ?c1 = "snd (drain_loop plays ?c0)"
    from True have se: "source_ended plays c = drain_loop plays ?c0"
      by (simp add: source_ended_def)
    from True Suc.prems have len: "length (audioQueue c) \<le> n" by simp
    have fifo: "dequeued (fst (drain_loop plays ?c0)) @ audioQueue ?c1 = audioQueue c"
      using drain_loop_fifo [of plays ?c0] by simp
    have pre1: "draining ?c1 = 1 \<or> (draining ?c1 = 0 \<and> audioQueue ?c1 = [] \<and> \<not> isPlaying ?c1)"
      by (simp add: drain_loop_closed)
    have pre2: "draining ?c1 = 1 \<longrightarrow> length (audioQueue ?c1) < n"
    proof
      assume "draining ?c1 = 1"
      then have ne: "dropWhile (rejected plays c) (audioQueue c) \<noteq> []"
        by (auto simp: drain_loop_closed split: if_splits)
      then have "audioQueue ?c1 = tl (dropWhile (rejected plays c) (audioQueue c))"
        by (auto simp: drain_loop_closed)
      moreover have "length (dropWhile (rejected plays c) (audioQueue c)) \<le> length (audioQueue c)"
        by (rule length_dropWhile_le)
      ultimately show "length (audioQueue ?c1) < n"
        using ne len by (cases "dropWhile (rejected plays c) (audioQueue c)") auto
    qed
    from Suc.IH [OF pre1 pre2] fifo se show ?thesis
      by (simp add: split_beta dequeued_append)
  qed
qed

lemma drain_run:
  assumes sd: "single_drain c" and ctx: "audioContext c \<noteq> None"
  shows "dequeued (fst (run_events plays c
            (PlayQueuedAudio # replicate (length (audioQueue c) + 1) SourceEnded)))
          = audioQueue c
   \<and> audioQueue (snd (run_events plays c
            (PlayQueuedAudio # replicate (length (audioQueue c) + 1) SourceEnded))) = []
   \<and> \<not> isPlaying (snd (run_events plays c
            (PlayQueuedAudio # replicate (length (audioQueue c) + 1) SourceEnded)))
   \<and> draining (snd (run_events plays c
            (PlayQueuedAudio # replicate (length (audioQueue c) + 1) SourceEnded))) = 0"
proof -
  let ?n = "length (audioQueue c) + 1"
  let ?p = "playQueuedAudio plays c"
  have fifo: "dequeued (fst ?p) @ audioQueue (snd ?p) = audioQueue c"
    using step_fifo [of plays c PlayQueuedAudio] by simp
  have pre1: "draining (snd ?p) = 1
      \<or> (draining (snd ?p) = 0 \<and> audioQueue (snd ?p) = [] \<and> \<not> isPlaying (snd ?p))"
  proof (cases "isPlaying c \<or> audioQueue c = [] \<or> audioContext c = None")
    case True
    with sd ctx show ?thesis by (auto simp: playQueuedAudio_def single_drain_def)
  next
    case False
    with sd have "draining c = 0" by (auto simp: single_drain_def)
    with False show ?thesis by (simp add: playQueuedAudio_def drain_loop_closed)
  qed
  have "length (audioQueue (snd ?p)) \<le> length (audioQueue c)"
    using playQueuedAudio_effects [of plays c] by (auto dest: suffix_length_le)
  then have pre2: "draining (snd ?p) = 1 \<longrightarrow> length (audioQueue (snd ?p)) < ?n"
    by simp
  from ended_run [OF pre1 pre2, of plays] fifo show ?thesis
    by (simp add: split_beta dequeued_append)
qed

lemma disconnect_step:
  "snd (snd (disconnect sc cc c))
     = c\<lparr>session := None, audioContext := None, audioQueue := [], isPlaying := False\<rparr>"
  "dequeued (fst (snd (disconnect sc cc c))) = []"
  "started (fst (snd (disconnect sc cc c))) = []"
  by (cases sc; cases cc; simp add: disconnect_def try_catch_def call_def)+

lemma connect_step:
  "audioContext (snd (snd (connect live c k))) = Some AudioContext"
  "audioQueue (snd (snd (connect live c k))) = audioQueue c"
  "isPlaying (snd (snd (connect live c k))) = isPlaying c"
  "draining (snd (snd (connect live c k))) = draining c"
  "dequeued (fst (snd (connect live c k))) = []"
  "started (fst (snd (connect live c k))) = []"
  by (cases live; simp add: connect_def)+

lemma player_step_inv:
  assumes "drain_inv c"
  shows "drain_inv (snd (player_step plays c e))"
proof (cases e)
  case (QueueAudio a)
  with assms show ?thesis by (simp add: queueAudio_def drain_inv_def)
next
  case PlayQueuedAudio
  show ?thesis
  proof (cases "isPlaying c \<or> audioQueue c = [] \<or> audioContext c = None")
    case True
    with assms PlayQueuedAudio show ?thesis by (simp add: playQueuedAudio_def)
  next
    case False
    with assms have "draining c = 0" by (auto simp: drain_inv_def)
    with False PlayQueuedAudio show ?thesis
      by (simp add: playQueuedAudio_def drain_loop_closed drain_inv_def)
  qed
next
  case SourceEnded
  show ?thesis
  proof (cases "draining c = 0")
    case True
    with assms SourceEnded show ?thesis by (simp add: source_ended_def)
  next
    case False
    with assms have d: "draining c = 1" by (auto simp: drain_inv_def)
    show ?thesis
    proof (cases "dropWhile (rejected plays c) (audioQueue c) = []")
      case True
      with d SourceEnded show ?thesis
        by (simp add: source_ended_def drain_loop_closed drain_inv_def)
    next
      case False
      then have "\<not> rejected plays c (hd (dropWhile (rejected plays c) (audioQueue c)))"
        by (rule hd_dropWhile)
      then have "audioContext c \<noteq> None" by (simp add: rejected_def)
      with assms d have "isPlaying c" by (auto simp: drain_inv_def)
      with False d SourceEnded show ?thesis
        by (simp add: source_ended_def drain_loop_closed drain_inv_def)
    qed
  qed
qed

lemma run_client_inv:
  "drain_inv c \<Longrightarrow> orphan_free plays c evs \<Longrightarrow> drain_inv (snd (run_client plays c evs))"
proof (induction evs arbitrary: c)
  case Nil
  then show ?case by simp
next
  case (Cons e evs)
  have step: "drain_inv (snd (client_step plays c e))"
  proof (cases e)
    case (Player x)
    with Cons.prems(1) show ?thesis by (simp add: player_step_inv)
  next
    case (Disconnect sc cc)
    with Cons.prems(1) show ?thesis by (simp add: disconnect_step drain_inv_def)
  next
    case (Connect live k)
    with Cons.prems have "isPlaying c \<or> draining c = 0" by simp
    with Cons.prems(1) Connect show ?thesis
      by (auto simp: connect_step drain_inv_def)
  qed
  from Cons.prems(2) have "orphan_free plays (snd (client_step plays c e)) evs"
    by (cases e) simp_all
  from Cons.IH [OF step this] show ?case by (simp add: split_beta)
qed

lemma enqueued_chunks_Cons:
  "enqueued_chunks (e # evs) = enqueued_chunks [e] @ enqueued_chunks evs"
proof (cases e)
  case (Player x)
  then show ?thesis by (cases x) simp_all
qed simp_all

lemma client_step_fifo:
  "(case e of Disconnect sc cc \<Rightarrow> False | _ \<Rightarrow> True) \<Longrightarrow>
   dequeued (fst (client_step plays c e)) @ audioQueue (snd (client_step plays c e))
     = audioQueue c @ enqueued_chunks [e]"
proof (cases e)
  case (Player x)
  have "enqueued_chunks [Player x] = enqueued [x]" by (cases x) simp_all
  with Player step_fifo [of plays c x] show ?thesis by simp
next
  case (Connect live k)
  then show ?thesis by (simp add: connect_step)
qed simp

lemma client_step_subseq:
  "subseq (dequeued (fst (client_step plays c e)) @ audioQueue (snd (client_step plays c e)))
     (audioQueue c @ enqueued_chunks [e])"
proof (cases e)
  case (Disconnect sc cc)
  then show ?thesis by (simp add: disconnect_step)
next
  case (Player x)
  then show ?thesis using client_step_fifo [of e plays c] by simp
next
  case (Connect live k)
  then show ?thesis using client_step_fifo [of e plays c] by simp
qed

lemma run_client_subseq:
  "subseq (dequeued (fst (run_client plays c evs)) @ audioQueue (snd (run_client plays c evs)))
     (audioQueue c @ enqueued_chunks evs)"
proof (induction evs arbitrary: c)
  case Nil
  show ?case by simp
next
  case (Cons e evs)
  let ?s = "client_step plays c e"
  let ?r = "run_client plays (snd ?s) evs"
  have "subseq (dequeued (fst ?s) @ (dequeued (fst ?r) @ audioQueue (snd ?r)))
          (dequeued (fst ?s) @ (audioQueue (snd ?s) @ enqueued_chunks evs))"
    using Cons [of "snd ?s"] by (rule subseq_append' [THEN iffD2, rotated -1]) 
  moreover have "subseq ((dequeued (fst ?s) @ audioQueue (snd ?s)) @ enqueued_chunks evs)
          ((audioQueue c @ enqueued_chunks [e]) @ enqueued_chunks evs)"
    using client_step_subseq [of plays c e] by (rule list_emb_append_mono) simp
  ultimately have "subseq (dequeued (fst ?s) @ (dequeued (fst ?r) @ audioQueue (snd ?r)))
          ((audioQueue c @ enqueued_chunks [e]) @ enqueued_chunks evs)"
    by (simp only: append_assoc)
  then show ?case
    by (simp add: split_beta dequeued_append enqueued_chunks_Cons [of e evs])
qed

lemma run_client_fifo:
  "no_disconnect evs \<Longrightarrow>
   dequeued (fst (run_client plays c evs)) @ audioQueue (snd (run_client plays c evs))
     = audioQueue c @ enqueued_chunks evs"
proof (induction evs arbitrary: c)
  case Nil
  show ?case by simp
next
  case (Cons e evs)
  from Cons.prems have e: "case e of Disconnect sc cc \<Rightarrow> False | _ \<Rightarrow> True"
    and evs: "no_disconnect evs"
    by (cases e; simp)+
  from Cons.IH [OF evs, of "snd (client_step plays c e)"] client_step_fifo [OF e, of plays c]
  show ?case
    by (simp add: split_beta dequeued_append enqueued_chunks_Cons [of e evs]
        del: client_step.simps)
qed

lemma filter_accepted_subseq:
  "subseq (filter (\<lambda>a. \<not> rejected plays c a) ys) (filter plays ys)"
proof (cases "audioContext c = None")
  case True
  then show ?thesis by (simp add: rejected_def)
next
  case False
  then have "(\<lambda>a. \<not> rejected plays c a) = plays" by (auto simp: rejected_def)
  then show ?thesis by simp
qed

lemma client_step_started:
  "subseq (started (fst (client_step plays c e)))
     (filter plays (dequeued (fst (client_step plays c e))))"
proof (cases e)
  case (Player x)
  with step_started [of plays c x] filter_accepted_subseq [of plays c] show ?thesis by simp
next
  case (Disconnect sc cc)
  then show ?thesis by (simp add: disconnect_step)
next
  case (Connect live k)
  then show ?thesis by (simp add: connect_step)
qed

lemma run_client_started:
  "subseq (started (fst (run_client plays c evs)))
     (filter plays (dequeued (fst (run_client plays c evs))))"
proof (induction evs arbitrary: c)
  case Nil
  show ?case by simp
next
  case (Cons e evs)
  from list_emb_append_mono [OF client_step_started [of plays c e]
      Cons [of "snd (client_step plays c e)"]]
  show ?case
    by (simp add: split_beta dequeued_append started_append del: client_step.simps)
qed

lemma player_step_idle:
  "audioContext c = None \<Longrightarrow> draining c = 0 \<Longrightarrow>
     fst (player_step plays c e) = [] \<and> draining (snd (player_step plays c e)) = 0"
  by (cases e) (simp_all add: queueAudio_def playQueuedAudio_def source_ended_def)

lemma client_step_connected:
  assumes inv: "connected_inv c" and e: "case e of Disconnect sc cc \<Rightarrow> False | _ \<Rightarrow> True"
  shows "connected_inv (snd (client_step plays c e))
    \<and> started (fst (client_step plays c e))
        = filter plays (dequeued (fst (client_step plays c e)))"
proof (cases e)
  case (Player x)
  from inv have sd: "single_drain c" by (simp add: connected_inv_def)
  show ?thesis
  proof (cases "audioContext c = None")
    case True
    with inv have "draining c = 0" by (simp add: connected_inv_def)
    with True player_step_idle [of c plays x] step_single [OF sd, of plays x] Player
    show ?thesis by (simp add: connected_inv_def)
  next
    case False
    then have "(\<lambda>a. \<not> rejected plays c a) = plays" by (auto simp: rejected_def)
    with False step_started [of plays c x] step_single [OF sd, of plays x] Player
    show ?thesis by (auto simp: connected_inv_def)
  qed
next
  case (Disconnect sc cc)
  with e show ?thesis by simp
next
  case (Connect live k)
  with inv show ?thesis
    by (simp add: connect_step connected_inv_def single_drain_def)
qed

lemma run_client_connected:
  "connected_inv c \<Longrightarrow> no_disconnect evs \<Longrightarrow>
     connected_inv (snd (run_client plays c evs))
     \<and> started (fst (run_client plays c evs))
         = filter plays (dequeued (fst (run_client plays c evs)))"
proof (induction evs arbitrary: c)
  case Nil
  then show ?case by simp
next
  case (Cons e evs)
  from Cons.prems have e: "case e of Disconnect sc cc \<Rightarrow> False | _ \<Rightarrow> True"
    and evs: "no_disconnect evs"
    by (cases e; simp)+
  note st = client_step_connected [OF Cons.prems(1) e, of plays]
  from Cons.IH [OF conjunct1 [OF st] evs] st show ?case
    by (simp add: split_beta dequeued_append started_append del: client_step.simps)
qed

text \<open>
  C3 (as stated, refuted): more than one drain loop can be active. A drain is
  suspended on the chunk [1, 2] when \<open>disconnect\<close> resets \<open>isPlaying\<close>; after
  a new \<open>connect\<close>, the next call of \<open>playQueuedAudio\<close> passes the guard and
  starts [3, 4]: two loops are suspended and two sources have been started, neither
  of which has ended.
\<close>

theorem playback_reconnect_counterexample:
  "run_client (\<lambda>a. True) new_client
     [Connect None (js ''key''), Player (QueueAudio [1, 2]), Player PlayQueuedAudio,
      Disconnect None None,
      Connect None (js ''key''), Player (QueueAudio [3, 4]), Player PlayQueuedAudio]
   = ([OnStatusChange Connecting, LiveConnect (js ''key''), OnStatusChange Connected,
       SourceStart [1, 2],
       SessionClose, AudioContextClose, OnStatusChange Disconnected,
       OnStatusChange Connecting, LiveConnect (js ''key''), OnStatusChange Connected,
       SourceStart [3, 4]],
      \<lparr>session = Some Session, audioContext = Some AudioContext, audioQueue = [],
       isPlaying = True, draining = 2\<rparr>)"
  by (simp add: new_client_def connect_def disconnect_def call_def try_catch_def
      queueAudio_def playQueuedAudio_def drain_loop_closed rejected_def)

text \<open>
  C3 (amended): let any sequence of events happen to a client that starts with an
  empty queue and no drain: a chunk is enqueued (\<open>queueAudio\<close>),
  \<open>playQueuedAudio\<close> is called, the source a suspended loop waits for ends,
  \<open>disconnect\<close>, \<open>connect\<close>; provided \<open>connect\<close> is never called while a
  drain loop that a \<open>disconnect\<close> left behind is still suspended. Then, at every
  instant, chunks leave the queue in enqueue order (the chunks taken off the queue
  so far, followed by those still queued, are the enqueued chunks in order, less
  those a \<open>disconnect\<close> discarded; within one connection they are exactly the
  enqueued chunks); the chunks started are dequeued chunks that the platform
  accepts, in the same order (within one connection, all of them); at most one
  drain loop is suspended, one is whenever \<open>isPlaying\<close> holds (within one
  connection, exactly then); a call of \<open>playQueuedAudio\<close> while \<open>isPlaying\<close>
  changes nothing and has no effect; a chunk enqueued while \<open>isPlaying\<close> is taken
  off the queue, after the chunks queued before it, by that drain alone (no
  further call of \<open>playQueuedAudio\<close> is needed); and, with an audio context, a call
  of \<open>playQueuedAudio\<close> followed by the ends of the sources takes every queued
  chunk off the queue in order, starts those the platform accepts, and leaves the
  queue empty and no drain.
\<close>

theorem playback_fifo_single_drain:
  assumes "orphan_free plays (new_client\<lparr>session := s, audioContext := ctx\<rparr>) evs"
  shows "(case run_client plays (new_client\<lparr>session := s, audioContext := ctx\<rparr>) evs of
      (es, c) \<Rightarrow>
        subseq (dequeued es @ audioQueue c) (enqueued_chunks evs)
        \<and> subseq (started es) (filter plays (dequeued es))
        \<and> (no_disconnect evs \<longrightarrow>
             dequeued es @ audioQueue c = enqueued_chunks evs
             \<and> started es = filter plays (dequeued es)
             \<and> (isPlaying c \<longleftrightarrow> draining c = 1))
        \<and> draining c \<le> 1 \<and> (isPlaying c \<longrightarrow> draining c = 1)
        \<and> (isPlaying c \<longrightarrow> playQueuedAudio plays c = ([], c))
        \<and> (isPlaying c \<longrightarrow>
             (\<forall>a. case run_events plays (queueAudio c a)
                          (replicate (length (audioQueue c) + 2) SourceEnded) of
                    (es', c') \<Rightarrow>
                      dequeued es' = audioQueue c @ [a] \<and> audioQueue c' = []
                      \<and> \<not> isPlaying c' \<and> draining c' = 0))
        \<and> (audioContext c \<noteq> None \<longrightarrow>
             (case run_events plays c
                     (PlayQueuedAudio # replicate (length (audioQueue c) + 1) SourceEnded) of
                (es', c') \<Rightarrow>
                  dequeued es' = audioQueue c
                  \<and> started es' = filter plays (audioQueue c)
                  \<and> audioQueue c' = [] \<and> \<not> isPlaying c' \<and> draining c' = 0)))"
proof -
  let ?init = "new_client\<lparr>session := s, audioContext := ctx\<rparr>"
  let ?r = "run_client plays ?init evs"
  let ?d = "run_events plays (snd ?r)
              (PlayQueuedAudio # replicate (length (audioQueue (snd ?r)) + 1) SourceEnded)"
  have sub: "subseq (dequeued (fst ?r) @ audioQueue (snd ?r)) (enqueued_chunks evs)"
    using run_client_subseq [of plays ?init evs] by (simp add: new_client_def)
  have st: "subseq (started (fst ?r)) (filter plays (dequeued (fst ?r)))"
    by (rule run_client_started)
  have "drain_inv ?init" by (simp add: drain_inv_def new_client_def)
  from run_client_inv [OF this assms] have inv: "drain_inv (snd ?r)" .
  have ci: "connected_inv ?init"
    by (simp add: connected_inv_def single_drain_def new_client_def)
  have conn: "dequeued (fst ?r) @ audioQueue (snd ?r) = enqueued_chunks evs
      \<and> started (fst ?r) = filter plays (dequeued (fst ?r))
      \<and> (isPlaying (snd ?r) \<longleftrightarrow> draining (snd ?r) = 1)"
    if nd: "no_disconnect evs"
    using run_client_fifo [OF nd, of plays ?init] run_client_connected [OF ci nd, of plays]
    by (simp add: new_client_def connected_inv_def single_drain_def)
  have noop: "playQueuedAudio plays (snd ?r) = ([], snd ?r)" if "isPlaying (snd ?r)"
    using that by (simp add: playQueuedAudio_def)
  have same: "dequeued (fst (run_events plays (queueAudio (snd ?r) a)
                  (replicate (length (audioQueue (snd ?r)) + 2) SourceEnded)))
                = audioQueue (snd ?r) @ [a]
      \<and> audioQueue (snd (run_events plays (queueAudio (snd ?r) a)
                  (replicate (length (audioQueue (snd ?r)) + 2) SourceEnded))) = []
      \<and> \<not> isPlaying (snd (run_events plays (queueAudio (snd ?r) a)
                  (replicate (length (audioQueue (snd ?r)) + 2) SourceEnded)))
      \<and> draining (snd (run_events plays (queueAudio (snd ?r) a)
                  (replicate (length (audioQueue (snd ?r)) + 2) SourceEnded))) = 0"
    if "isPlaying (snd ?r)" for a
  proof -
    from that inv have d: "draining (queueAudio (snd ?r) a) = 1"
      by (simp add: drain_inv_def queueAudio_def)
    have l: "length (audioQueue (queueAudio (snd ?r) a)) < length (audioQueue (snd ?r)) + 2"
      by (simp add: queueAudio_def)
    from ended_run [of "queueAudio (snd ?r) a" "length (audioQueue (snd ?r)) + 2" plays] d l
    show ?thesis by (simp add: queueAudio_def)
  qed
  have drain: "dequeued (fst ?d) = audioQueue (snd ?r)
      \<and> started (fst ?d) = filter plays (audioQueue (snd ?r))
      \<and> audioQueue (snd ?d) = [] \<and> \<not> isPlaying (snd ?d) \<and> draining (snd ?d) = 0"
    if c: "audioContext (snd ?r) \<noteq> None"
  proof -
    from inv c have sd: "single_drain (snd ?r)"
      by (auto simp: drain_inv_def single_drain_def)
    note dr = drain_run [OF sd c, of plays]
    have "started (fst ?d) = filter (\<lambda>a. \<not> rejected plays (snd ?r) a) (dequeued (fst ?d))"
      by (rule run_started)
    with c dr have "started (fst ?d) = filter plays (audioQueue (snd ?r))"
      by (simp add: rejected_def)
    with dr show ?thesis by simp
  qed
  from inv have bound: "draining (snd ?r) \<le> 1" "isPlaying (snd ?r) \<longrightarrow> draining (snd ?r) = 1"
    by (simp_all add: drain_inv_def)
  from sub st conn bound noop same drain show ?thesis
    by (simp add: split_beta)
qed

theorem playback_fifo_single_drain_witness:
  "run_client (\<lambda>a. True) (new_client\<lparr>session := None, audioContext := None\<rparr>)
     [Connect None (js ''key''),
      Player (QueueAudio [1, 2]), Player (QueueAudio [3, 4]), Player PlayQueuedAudio,
      Player (QueueAudio [5, 6]), Player PlayQueuedAudio]
   = ([OnStatusChange Connecting, LiveConnect (js ''key''), OnStatusChange Connected,
       SourceStart [1, 2]],
      \<lparr>session = Some Session, audioContext = Some AudioContext,
       audioQueue = [[3, 4], [5, 6]], isPlaying = True, draining = 1\<rparr>)
   \<and> playQueuedAudio (\<lambda>a. True)
       \<lparr>session = Some Session, audioContext = Some AudioContext,
        audioQueue = [[3, 4], [5, 6]], isPlaying = True, draining = 1\<rparr>
     = ([], \<lparr>session = Some Session, audioContext = Some AudioContext,
             audioQueue = [[3, 4], [5, 6]], isPlaying = True, draining = 1\<rparr>)
   \<and> dequeued (fst (run_events (\<lambda>a. True)
        (queueAudio \<lparr>session = Some Session, audioContext = Some AudioContext,
             audioQueue = [[3, 4], [5, 6]], isPlaying = True, draining = 1\<rparr> [7, 8])
        (replicate 4 SourceEnded))) = [[3, 4], [5, 6], [7, 8]]
   \<and> orphan_free even_pcm (new_client\<lparr>session := None, audioContext := None\<rparr>)
        [Connect None (js ''key''), Player (QueueAudio [1, 2]), Player PlayQueuedAudio,
         Disconnect None None, Player SourceEnded,
         Connect None (js ''key''), Player (QueueAudio [9]), Player (QueueAudio [3, 4])]
   \<and> run_client even_pcm (new_client\<lparr>session := None, audioContext := None\<rparr>)
        [Connect None (js ''key''), Player (QueueAudio [1, 2]), Player PlayQueuedAudio,
         Disconnect None None, Player SourceEnded,
         Connect None (js ''key''), Player (QueueAudio [9]), Player (QueueAudio [3, 4])]
     = ([OnStatusChange Connecting, LiveConnect (js ''key''), OnStatusChange Connected,
         SourceStart [1, 2],
         SessionClose, AudioContextClose, OnStatusChange Disconnected,
         OnStatusChange Connecting, LiveConnect (js ''key''), OnStatusChange Connected],
        \<lparr>session = Some Session, audioContext = Some AudioContext,
         audioQueue = [[9], [3, 4]], isPlaying = False, draining = 0\<rparr>)
   \<and> dequeued (fst (run_events even_pcm
        \<lparr>session = Some Session, audioContext = Some AudioContext,
         audioQueue = [[9], [3, 4]], isPlaying = False, draining = 0\<rparr>
        (PlayQueuedAudio # replicate 3 SourceEnded))) = [[9], [3, 4]]
   \<and> started (fst (run_events even_pcm
        \<lparr>session = Some Session, audioContext = Some AudioContext,
         audioQueue = [[9], [3, 4]], isPlaying = False, draining = 0\<rparr>
        (PlayQueuedAudio # replicate 3 SourceEnded))) = [[3, 4]]"
proof -
  let ?init = "new_client\<lparr>session := None, audioContext := None\<rparr>"
  let ?evs = "[Connect None (js ''key''),
      Player (QueueAudio [1, 2]), Player (QueueAudio [3, 4]), Player PlayQueuedAudio,
      Player (QueueAudio [5, 6]), Player PlayQueuedAudio]"
  let ?c = "\<lparr>session = Some Session, audioContext = Some AudioContext,
       audioQueue = [[3, 4], [5, 6]], isPlaying = True, draining = 1\<rparr>"
  have o: "orphan_free (\<lambda>a. True) ?init ?evs"
    by (simp add: new_client_def connect_def queueAudio_def playQueuedAudio_def
        drain_loop_closed rejected_def)
  have r: "run_client (\<lambda>a. True) ?init ?evs
      = ([OnStatusChange Connecting, LiveConnect (js ''key''), OnStatusChange Connected,
          SourceStart [1, 2]], ?c)"
    by (simp add: new_client_def connect_def queueAudio_def playQueuedAudio_def
        drain_loop_closed rejected_def)
  have all: "\<forall>a. case run_events (\<lambda>a. True) (queueAudio ?c a)
                          (replicate (length (audioQueue ?c) + 2) SourceEnded) of
                    (es', c') \<Rightarrow>
                      dequeued es' = audioQueue ?c @ [a] \<and> audioQueue c' = []
                      \<and> \<not> isPlaying c' \<and> draining c' = 0"
    and noop: "playQueuedAudio (\<lambda>a. True) ?c = ([], ?c)"
    using playback_fifo_single_drain [OF o] unfolding r by simp_all
  have n: "length (audioQueue ?c) + 2 = 4" and q: "audioQueue ?c @ [[7, 8]] = [[3, 4], [5, 6], [7, 8]]"
    by simp_all
  from all have "case run_events (\<lambda>a. True) (queueAudio ?c [7, 8])
                          (replicate (length (audioQueue ?c) + 2) SourceEnded) of
                    (es', c') \<Rightarrow>
                      dequeued es' = audioQueue ?c @ [[7, 8]] \<and> audioQueue c' = []
                      \<and> \<not> isPlaying c' \<and> draining c' = 0"
    by (rule spec)
  then have "dequeued (fst (run_events (\<lambda>a. True) (queueAudio ?c [7, 8])
        (replicate (length (audioQueue ?c) + 2) SourceEnded))) = audioQueue ?c @ [[7, 8]]"
    by (simp only: case_prod_beta)
  then have same: "dequeued (fst (run_events (\<lambda>a. True) (queueAudio ?c [7, 8])
        (replicate 4 SourceEnded))) = [[3, 4], [5, 6], [7, 8]]"
    unfolding n q .
  let ?life = "[Connect None (js ''key''), Player (QueueAudio [1, 2]), Player PlayQueuedAudio,
         Disconnect None None, Player SourceEnded,
         Connect None (js ''key''), Player (QueueAudio [9]), Player (QueueAudio [3, 4])]"
  let ?idle = "\<lparr>session = Some Session, audioContext = Some AudioContext,
         audioQueue = [[9], [3, 4]], isPlaying = False, draining = 0\<rparr>"
  have o2: "orphan_free even_pcm ?init ?life"
    by (simp add: new_client_def connect_def disconnect_def call_def try_catch_def
        queueAudio_def playQueuedAudio_def source_ended_def drain_loop_closed rejected_def
        even_pcm_def)
  have r2: "run_client even_pcm ?init ?life
      = ([OnStatusChange Connecting, LiveConnect (js ''key''), OnStatusChange Connected,
         SourceStart [1, 2],
         SessionClose, AudioContextClose, OnStatusChange Disconnected,
         OnStatusChange Connecting, LiveConnect (js ''key''), OnStatusChange Connected],
         ?idle)"
    by (simp add: new_client_def connect_def disconnect_def call_def try_catch_def
        queueAudio_def playQueuedAudio_def source_ended_def drain_loop_closed rejected_def
        even_pcm_def)
  have "case run_events even_pcm ?idle
               (PlayQueuedAudio # replicate (length (audioQueue ?idle) + 1) SourceEnded) of
          (es', c') \<Rightarrow>
            dequeued es' = audioQueue ?idle
            \<and> started es' = filter even_pcm (audioQueue ?idle)
            \<and> audioQueue c' = [] \<and> \<not> isPlaying c' \<and> draining c' = 0"
    using playback_fifo_single_drain [OF o2] unfolding r2 by simp
  then have "dequeued (fst (run_events even_pcm ?idle
               (PlayQueuedAudio # replicate (length (audioQueue ?idle) + 1) SourceEnded)))
               = audioQueue ?idle"
    and "started (fst (run_events even_pcm ?idle
               (PlayQueuedAudio # replicate (length (audioQueue ?idle) + 1) SourceEnded)))
               = filter even_pcm (audioQueue ?idle)"
    by (simp_all only: case_prod_beta)
  moreover have "length (audioQueue ?idle) + 1 = 3" "audioQueue ?idle = [[9], [3, 4]]"
    "filter even_pcm [[9], [3, 4]] = [[3, 4]]"
    by (simp_all add: even_pcm_def)
  ultimately have drain: "dequeued (fst (run_events even_pcm ?idle
        (PlayQueuedAudio # replicate 3 SourceEnded))) = [[9], [3, 4]]"
    "started (fst (run_events even_pcm ?idle
        (PlayQueuedAudio # replicate 3 SourceEnded))) = [[3, 4]]"
    by (simp_all only:)
  from r noop same o2 r2 drain show ?thesis by (simp only: simp_thms)
qed

subsection \<open>Inbound frames\<close>

lemma base64ToArrayBuffer_error:
  "base64ToArrayBuffer d = Inl e \<Longrightarrow> e = js ''InvalidCharacterError''"
  by (auto simp: base64ToArrayBuffer_def atob_def Let_def split: sum.splits if_splits option.splits)

lemma handle_parts_char:
  "handle_parts c ps =
    (if dropWhile decodable ps = [] then Normal else Throw (js ''InvalidCharacterError''),
     map assistant_message
       (List.map_filter part_text (takeWhile decodable ps @ take 1 (dropWhile decodable ps))),
     c\<lparr>audioQueue := audioQueue c @ List.map_filter part_chunk (takeWhile decodable ps)\<rparr>)"
proof (induction ps arbitrary: c)
  case Nil
  show ?case by (simp add: List.map_filter_simps)
next
  case (Cons p ps)
  show ?case
  proof (cases "part_audio p")
    case None
    then have d: "decodable p" "part_chunk p = None"
      by (simp_all add: decodable_def part_chunk_def)
    with None Cons [of c] show ?thesis
      by (cases "part_text p") (simp_all add: List.map_filter_simps assistant_message_def)
  next
    case (Some d)
    show ?thesis
    proof (cases "base64ToArrayBuffer d")
      case (Inl e)
      with Some have nd: "\<not> decodable p" by (simp add: decodable_def)
      from Inl have "e = js ''InvalidCharacterError''" by (rule base64ToArrayBuffer_error)
      with Some Inl nd show ?thesis
        by (cases "part_text p") (simp_all add: List.map_filter_simps assistant_message_def)
    next
      case (Inr b)
      with Some have dd: "decodable p" "part_chunk p = Some b"
        by (simp_all add: decodable_def part_chunk_def)
      with Some Inr Cons [of "queueAudio c b"] show ?thesis
        by (cases "part_text p")
          (simp_all add: List.map_filter_simps assistant_message_def queueAudio_def)
    qed
  qed
qed

lemma base64_payload_decodable:
  "arrayBufferToBase64 buffer = Inr d \<Longrightarrow> base64ToArrayBuffer d = Inr buffer"
proof -
  assume "arrayBufferToBase64 buffer = Inr d"
  moreover have small: "\<not> list_ex (\<lambda>c. 255 < c) (map ucast buffer :: jsstring)"
    by (simp add: list_ex_iff widen_small)
  moreover have ns: "map unat (map ucast buffer :: jsstring) = map unat buffer"
    by (simp add: unat_widen)
  ultimately have d: "d = encode_groups (map unat buffer)"
    unfolding arrayBufferToBase64_def btoa_def by (simp only: ns if_False sum.inject)
  have "\<forall>x \<in> set (map unat buffer). x < 256"
    by (simp add: byte_bound)
  then have "atob (encode_groups (map unat buffer)) = Inr (map of_nat (map unat buffer))"
    by (rule atob_encode)
  then show ?thesis
    unfolding d by (simp add: base64ToArrayBuffer_def narrow_widen map_idI del: of_nat_unat)
qed

text \<open>
  C4 (as stated, refuted): not every text fragment gives a ChatMessage and not
  every audio inline-data fragment is enqueued. This frame carries a text part
  whose text is the empty string and an audio part whose payload is the empty
  string (the base64 of the empty buffer): both tests of the loop are truthiness
  tests, so nothing is emitted and nothing is enqueued.
\<close>

theorem handleMessage_empty_fragment_counterexample:
  "handleMessage (\<lambda>a. True) (new_client\<lparr>audioContext := Some AudioContext\<rparr>)
     \<lparr>setupComplete = None,
      serverContent = Some
        \<lparr>interrupted = None, turnComplete = None,
         modelTurn = Some \<lparr>parts = Some
           [\<lparr>text_field = Some [], inlineData = None\<rparr>,
            \<lparr>text_field = None,
             inlineData = Some \<lparr>data = Some [], mimeType = Some (js ''audio/pcm'')\<rparr>\<rparr>]\<rparr>\<rparr>\<rparr>
   = (Normal, [], new_client\<lparr>audioContext := Some AudioContext\<rparr>)
   \<and> arrayBufferToBase64 [] = Inr []
   \<and> base64ToArrayBuffer [] = Inr []"
  by (simp add: handleMessage_def part_text_def part_audio_def truthy_def
      arrayBufferToBase64_def btoa_def base64ToArrayBuffer_def atob_def strip_padding_def)

text \<open>
  C4 (amended): for every inbound frame whose audio payloads \<^verbatim>\<open>atob\<close> accepts
  (every base64 of a buffer is one, \<open>base64_payload_decodable\<close>): with
  \<open>setupComplete\<close> present nothing is emitted or enqueued; else with
  \<open>interrupted\<close> set, nothing; else with \<open>turnComplete\<close> set, exactly
  \<open>playQueuedAudio\<close> runs (it only takes chunks off the queue, at least one when
  it is not already playing and has a queue and a context) and no part is
  processed; else the parts are processed in order: one assistant message per part
  with a non-empty text, one decoded chunk enqueued per part with a non-empty
  payload of a MIME type starting with "audio/", nothing for any other part.
\<close>

theorem handleMessage_precedence:
  "(setupComplete m \<noteq> None \<longrightarrow> handleMessage plays c m = (Normal, [], c))
   \<and> (\<forall>sc. setupComplete m = None \<and> serverContent m = Some sc \<longrightarrow>
        (interrupted sc = Some True \<longrightarrow> handleMessage plays c m = (Normal, [], c))
      \<and> (interrupted sc \<noteq> Some True \<and> turnComplete sc = Some True \<longrightarrow>
           handleMessage plays c m
             = (Normal, fst (playQueuedAudio plays c), snd (playQueuedAudio plays c))
           \<and> list_all audio_effect (fst (playQueuedAudio plays c))
           \<and> dequeued (fst (playQueuedAudio plays c)) @ audioQueue (snd (playQueuedAudio plays c))
               = audioQueue c
           \<and> (\<not> isPlaying c \<and> audioQueue c \<noteq> [] \<and> audioContext c \<noteq> None
                \<longrightarrow> dequeued (fst (playQueuedAudio plays c)) \<noteq> []))
      \<and> (interrupted sc \<noteq> Some True \<and> turnComplete sc \<noteq> Some True
          \<and> (\<forall>p \<in> set (frame_parts sc). decodable p) \<longrightarrow>
           handleMessage plays c m =
             (Normal,
              map assistant_message (List.map_filter part_text (frame_parts sc)),
              c\<lparr>audioQueue := audioQueue c
                    @ List.map_filter part_chunk (frame_parts sc)\<rparr>)))"
proof -
  have parts: "handleMessage plays c m =
             (Normal,
              map assistant_message (List.map_filter part_text (frame_parts sc)),
              c\<lparr>audioQueue := audioQueue c
                    @ List.map_filter part_chunk (frame_parts sc)\<rparr>)"
    if "setupComplete m = None" "serverContent m = Some sc"
       "interrupted sc \<noteq> Some True" "turnComplete sc \<noteq> Some True"
       "\<forall>p \<in> set (frame_parts sc). decodable p" for sc
  proof -
    from that(5) have t: "takeWhile decodable (frame_parts sc) = frame_parts sc"
      and d: "dropWhile decodable (frame_parts sc) = []"
      by simp_all
    have "handleMessage plays c m = handle_parts c (frame_parts sc)"
      using that(1-4)
      by (auto simp: handleMessage_def frame_parts_def split: option.splits)
    then show ?thesis
      by (simp add: handle_parts_char t d)
  qed
  have turn: "handleMessage plays c m
             = (Normal, fst (playQueuedAudio plays c), snd (playQueuedAudio plays c))"
    if "setupComplete m = None" "serverContent m = Some sc"
       "interrupted sc \<noteq> Some True" "turnComplete sc = Some True" for sc
    using that by (simp add: handleMessage_def split_beta)
  have intr: "handleMessage plays c m = (Normal, [], c)"
    if "setupComplete m = None" "serverContent m = Some sc" "interrupted sc = Some True" for sc
    using that by (simp add: handleMessage_def)
  have first: "handleMessage plays c m = (Normal, [], c)" if "setupComplete m \<noteq> None"
    using that by (simp add: handleMessage_def)
  have fifo: "dequeued (fst (playQueuedAudio plays c)) @ audioQueue (snd (playQueuedAudio plays c))
               = audioQueue c"
    using step_fifo [of plays c PlayQueuedAudio] by simp
  have starts: "dequeued (fst (playQueuedAudio plays c)) \<noteq> []"
    if "\<not> isPlaying c \<and> audioQueue c \<noteq> [] \<and> audioContext c \<noteq> None"
  proof (cases "dropWhile (rejected plays c) (audioQueue c) = []")
    case True
    with that show ?thesis
      by (simp add: playQueuedAudio_def drain_loop_closed dequeued_errors)
  next
    case False
    with that show ?thesis
      by (auto simp: playQueuedAudio_def drain_loop_closed dequeued_append dequeued_errors)
  qed
  from parts turn intr first fifo starts playQueuedAudio_effects [of plays c] show ?thesis
    by blast
qed

theorem handleMessage_precedence_witness:
  "handleMessage (\<lambda>a. True) (new_client\<lparr>audioContext := Some AudioContext\<rparr>)
     \<lparr>setupComplete = None,
      serverContent = Some
        \<lparr>interrupted = None, turnComplete = None,
         modelTurn = Some \<lparr>parts = Some
           [\<lparr>text_field = Some (js ''Hi''), inlineData = None\<rparr>,
            \<lparr>text_field = None,
             inlineData = Some \<lparr>data = Some (js ''AQI=''), mimeType = Some (js ''audio/pcm'')\<rparr>\<rparr>,
            \<lparr>text_field = None,
             inlineData = Some \<lparr>data = Some (js ''AQI=''), mimeType = Some (js ''image/png'')\<rparr>\<rparr>]\<rparr>\<rparr>\<rparr>
   = (Normal, [OnMessage \<lparr>role = Assistant, content = js ''Hi''\<rparr>],
      new_client\<lparr>audioContext := Some AudioContext, audioQueue := [[1, 2]]\<rparr>)
  \<and> handleMessage (\<lambda>a. True) (new_client\<lparr>audioContext := Some AudioContext\<rparr>)
     \<lparr>setupComplete = Some LiveServerSetupComplete,
      serverContent = Some
        \<lparr>interrupted = None, turnComplete = None,
         modelTurn = Some \<lparr>parts = Some
           [\<lparr>text_field = Some (js ''Hi''), inlineData = None\<rparr>]\<rparr>\<rparr>\<rparr>
   = (Normal, [], new_client\<lparr>audioContext := Some AudioContext\<rparr>)
  \<and> handleMessage (\<lambda>a. True)
     \<lparr>session = Some Session, audioContext = Some AudioContext, audioQueue = [[1, 2]],
      isPlaying = False, draining = 0\<rparr>
     \<lparr>setupComplete = None,
      serverContent = Some
        \<lparr>interrupted = Some True, turnComplete = Some True,
         modelTurn = Some \<lparr>parts = Some
           [\<lparr>text_field = Some (js ''Hi''), inlineData = None\<rparr>]\<rparr>\<rparr>\<rparr>
   = (Normal, [],
      \<lparr>session = Some Session, audioContext = Some AudioContext, audioQueue = [[1, 2]],
       isPlaying = False, draining = 0\<rparr>)
  \<and> handleMessage (\<lambda>a. True)
     \<lparr>session = Some Session, audioContext = Some AudioContext, audioQueue = [[1, 2]],
      isPlaying = False, draining = 0\<rparr>
     \<lparr>setupComplete = None,
      serverContent = Some
        \<lparr>interrupted = None, turnComplete = Some True,
         modelTurn = Some \<lparr>parts = Some
           [\<lparr>text_field = Some (js ''Hi''), inlineData = None\<rparr>]\<rparr>\<rparr>\<rparr>
   = (Normal, [SourceStart [1, 2]],
      \<lparr>session = Some Session, audioContext = Some AudioContext, audioQueue = [],
       isPlaying = True, draining = 1\<rparr>)"
proof -
  let ?c = "new_client\<lparr>audioContext := Some AudioContext\<rparr>"
  let ?sc = "\<lparr>interrupted = None, turnComplete = None,
         modelTurn = Some \<lparr>parts = Some
           [\<lparr>text_field = Some (js ''Hi''), inlineData = None\<rparr>,
            \<lparr>text_field = None,
             inlineData = Some \<lparr>data = Some (js ''AQI=''), mimeType = Some (js ''audio/pcm'')\<rparr>\<rparr>,
            \<lparr>text_field = None,
             inlineData = Some \<lparr>data = Some (js ''AQI=''), mimeType = Some (js ''image/png'')\<rparr>\<rparr>]\<rparr>\<rparr>"
  let ?m = "\<lparr>setupComplete = None, serverContent = Some ?sc\<rparr>"
  let ?m2 = "\<lparr>setupComplete = Some LiveServerSetupComplete,
      serverContent = Some
        \<lparr>interrupted = None, turnComplete = None,
         modelTurn = Some \<lparr>parts = Some
           [\<lparr>text_field = Some (js ''Hi''), inlineData = None\<rparr>]\<rparr>\<rparr>\<rparr>"
  have b: "base64ToArrayBuffer (js ''AQI='') = Inr [1, 2]"
    by (simp add: base64ToArrayBuffer_def atob_def strip_padding_def ascii_whitespace_def
        b64_pad_def b64_alphabet_def js_def)
  have pa: "part_audio \<lparr>text_field = None,
             inlineData = Some \<lparr>data = Some (js ''AQI=''), mimeType = Some (js ''audio/pcm'')\<rparr>\<rparr>
            = Some (js ''AQI='')"
    "part_audio \<lparr>text_field = None,
             inlineData = Some \<lparr>data = Some (js ''AQI=''), mimeType = Some (js ''image/png'')\<rparr>\<rparr>
            = None"
    "part_audio \<lparr>text_field = Some (js ''Hi''), inlineData = None\<rparr> = None"
    by (simp_all add: part_audio_def truthy_def js_def)
  have pt: "part_text \<lparr>text_field = Some (js ''Hi''), inlineData = None\<rparr> = Some (js ''Hi'')"
    "\<And>b. part_text \<lparr>text_field = None, inlineData = b\<rparr> = None"
    by (simp_all add: part_text_def truthy_def js_def)
  have 1: "handleMessage (\<lambda>a. True) ?c ?m
     = (Normal, [OnMessage \<lparr>role = Assistant, content = js ''Hi''\<rparr>], ?c\<lparr>audioQueue := [[1, 2]]\<rparr>)"
    using handleMessage_precedence [where m = ?m and c = ?c and plays = "\<lambda>a. True"]
    by (simp add: frame_parts_def decodable_def part_chunk_def pa pt b
        List.map_filter_simps assistant_message_def new_client_def)
  have 2: "handleMessage (\<lambda>a. True) ?c ?m2 = (Normal, [], ?c)"
    using handleMessage_precedence [where m = ?m2 and c = ?c and plays = "\<lambda>a. True"]
    by simp
  let ?q = "\<lparr>session = Some Session, audioContext = Some AudioContext, audioQueue = [[1, 2]],
      isPlaying = False, draining = 0\<rparr>"
  let ?turn = "\<lparr>parts = Some [\<lparr>text_field = Some (js ''Hi''), inlineData = None\<rparr>]\<rparr>"
  let ?mi = "\<lparr>setupComplete = None,
      serverContent = Some \<lparr>interrupted = Some True, turnComplete = Some True,
         modelTurn = Some ?turn\<rparr>\<rparr>"
  let ?mt = "\<lparr>setupComplete = None,
      serverContent = Some \<lparr>interrupted = None, turnComplete = Some True,
         modelTurn = Some ?turn\<rparr>\<rparr>"
  have p: "playQueuedAudio (\<lambda>a. True) ?q
      = ([SourceStart [1, 2]],
         \<lparr>session = Some Session, audioContext = Some AudioContext, audioQueue = [],
          isPlaying = True, draining = 1\<rparr>)"
    by (simp add: playQueuedAudio_def drain_loop_closed rejected_def)
  have 3: "handleMessage (\<lambda>a. True) ?q ?mi = (Normal, [], ?q)"
    using handleMessage_precedence [where m = ?mi and c = ?q and plays = "\<lambda>a. True"]
    by simp
  have 4: "handleMessage (\<lambda>a. True) ?q ?mt
      = (Normal, [SourceStart [1, 2]],
         \<lparr>session = Some Session, audioContext = Some AudioContext, audioQueue = [],
          isPlaying = True, draining = 1\<rparr>)"
    using handleMessage_precedence [where m = ?mt and c = ?q and plays = "\<lambda>a. True"]
    by (simp add: p)
  from 1 2 3 4 show ?thesis by simp
qed

subsection \<open>sendText\<close>

text \<open>
  C10: when no session is open, \<open>sendText\<close> throws "Not connected to Gemini" and
  that is all it does: the list of effects is empty (no \<open>OnMessage\<close>, so no
  optimistic user message, and no \<open>SendClientContent\<close>) and the client is returned
  as it was (queue, \<open>isPlaying\<close> and every other field).
\<close>

theorem sendText_not_connected:
  "session c = None \<Longrightarrow>
     sendText send c txt = (Throw (js ''Not connected to Gemini''), [], c)"
  by (simp add: sendText_def)

theorem sendText_not_connected_witness:
  "session new_client = None
   \<and> sendText None new_client (js ''hello'')
       = (Throw (js ''Not connected to Gemini''), [], new_client)"
proof -
  have h: "session new_client = None" by (simp add: new_client_def)
  from h sendText_not_connected [OF h, of None "js ''hello''"] show ?thesis by simp
qed

text \<open>
  C6 (as stated, refuted): \<open>sendText\<close> of the client does not look at the text. On
  an open session, the whitespace-only string of three spaces (which \<open>trim\<close>
  empties) and the empty string are both announced as a user message and sent.
\<close>

theorem sendText_blank_counterexample:
  "trim (js ''   '') = []
   \<and> sendText None (new_client\<lparr>session := Some Session\<rparr>) (js ''   '')
       = (Normal,
          [OnMessage \<lparr>role = User, content = js ''   ''\<rparr>, SendClientContent (js ''   '')],
          new_client\<lparr>session := Some Session\<rparr>)
   \<and> sendText None (new_client\<lparr>session := Some Session\<rparr>) []
       = (Normal, [OnMessage \<lparr>role = User, content = []\<rparr>, SendClientContent []],
          new_client\<lparr>session := Some Session\<rparr>)"
  by (simp add: sendText_def call_def new_client_def trim_def js_whitespace_def js_def)

lemma sendText_effects:
  "sendText send c txt = (r, es, c') \<Longrightarrow>
     es = [] \<or> es = [OnMessage \<lparr>role = User, content = txt\<rparr>, SendClientContent txt]"
  by (auto simp: sendText_def split: if_splits)

text \<open>
  C6 (amended): the guard is in the caller. \<open>sendMessage\<close> of the component does
  nothing (no effect, state unchanged) when the trimmed input is empty, when there is
  no client, or when the status is not \<open>Connected\<close>; and whatever it makes the
  client emit or send is the trimmed, non-empty input, under status \<open>Connected\<close>.
\<close>

theorem sendMessage_blank_noop:
  "(trim (inputText u) = [] \<or> clientRef u = None \<or> status u \<noteq> Connected
      \<longrightarrow> sendMessage send u = ([], u))
   \<and> (\<forall>e \<in> set (fst (sendMessage send u)).
         trim (inputText u) \<noteq> [] \<and> status u = Connected
         \<and> (e = OnMessage \<lparr>role = User, content = trim (inputText u)\<rparr>
            \<or> e = SendClientContent (trim (inputText u))))"
proof -
  have noop: "sendMessage send u = ([], u)"
    if "trim (inputText u) = [] \<or> clientRef u = None \<or> status u \<noteq> Connected"
    using that by (auto simp: sendMessage_def truthy_def)
  have sent: "trim (inputText u) \<noteq> [] \<and> status u = Connected
         \<and> (e = OnMessage \<lparr>role = User, content = trim (inputText u)\<rparr>
            \<or> e = SendClientContent (trim (inputText u)))"
    if e: "e \<in> set (fst (sendMessage send u))" for e
  proof -
    from e have g: "truthy (trim (inputText u))" "clientRef u \<noteq> None" "status u = Connected"
      by (auto simp: sendMessage_def split: if_splits)
    then obtain c where c: "clientRef u = Some c" by auto
    obtain r es c' where st: "sendText send c (trim (inputText u)) = (r, es, c')"
      by (cases "sendText send c (trim (inputText u))") auto
    with g c have "fst (sendMessage send u) = es"
      by (cases r) (simp_all add: sendMessage_def)
    with e sendText_effects [OF st] g show ?thesis
      by (auto simp: truthy_def)
  qed
  from noop sent show ?thesis by blast
qed

theorem sendMessage_blank_noop_witness:
  "trim (inputText \<lparr>messages = [], inputText = js ''   '', status = Connected,
       connectionError = None, retryCount = 0,
       clientRef = Some (new_client\<lparr>session := Some Session\<rparr>),
       handlerStatus = Disconnected\<rparr>) = []
   \<and> sendMessage None \<lparr>messages = [], inputText = js ''   '', status = Connected,
       connectionError = None, retryCount = 0,
       clientRef = Some (new_client\<lparr>session := Some Session\<rparr>),
       handlerStatus = Disconnected\<rparr>
     = ([], \<lparr>messages = [], inputText = js ''   '', status = Connected,
       connectionError = None, retryCount = 0,
       clientRef = Some (new_client\<lparr>session := Some Session\<rparr>),
       handlerStatus = Disconnected\<rparr>)"
proof -
  let ?u = "\<lparr>messages = [], inputText = js ''   '', status = Connected,
       connectionError = None, retryCount = 0,
       clientRef = Some (new_client\<lparr>session := Some Session\<rparr>),
       handlerStatus = Disconnected\<rparr>"
  have t: "trim (inputText ?u) = []"
    by (simp add: trim_def js_whitespace_def js_def)
  with sendMessage_blank_noop [of ?u None] show ?thesis by blast
qed

subsection \<open>The close callback\<close>

text \<open>
  C5: for every close event, \<open>onclose\<close> reports no error when the code is 1000;
  for any other code (whatever \<open>wasClean\<close> is, so also when it is false) it calls
  \<open>onError\<close> once with a non-empty message: the abnormal-closure hint for 1006,
  the policy-violation hint for 1008, the server-error hint for 1011, the reason
  appended to "Connection closed: " for another code with a reason, and
  "Connection closed" for another code without one. In every case the last call is
  \<open>onStatusChange\<close> with \<open>Disconnected\<close>.
\<close>

theorem onclose_classification:
  "(code ev = 1000 \<longrightarrow> onclose ev = [OnStatusChange Disconnected])
   \<and> (code ev \<noteq> 1000 \<longrightarrow>
        (\<exists>m. m \<noteq> [] \<and> onclose ev = [OnError m, OnStatusChange Disconnected]))
   \<and> (code ev = 1006 \<longrightarrow> onclose ev =
        [OnError (js ''Connection closed abnormally - possible network issue or invalid API key''),
         OnStatusChange Disconnected])
   \<and> (code ev = 1008 \<longrightarrow> onclose ev =
        [OnError (js ''Policy violation - check your API key permissions''),
         OnStatusChange Disconnected])
   \<and> (code ev = 1011 \<longrightarrow> onclose ev =
        [OnError (js ''Server error - the Gemini service encountered an issue''),
         OnStatusChange Disconnected])
   \<and> (code ev \<notin> {1000, 1006, 1008, 1011} \<and> reason ev \<noteq> [] \<longrightarrow> onclose ev =
        [OnError (js ''Connection closed: '' @ reason ev), OnStatusChange Disconnected])
   \<and> (code ev \<notin> {1000, 1006, 1008, 1011} \<and> reason ev = [] \<longrightarrow> onclose ev =
        [OnError (js ''Connection closed''), OnStatusChange Disconnected])
   \<and> last (onclose ev) = OnStatusChange Disconnected"
  by (simp add: onclose_def truthy_def js_nonempty)

theorem onclose_classification_witness:
  "onclose \<lparr>code = 1000, reason = [], wasClean = True\<rparr> = [OnStatusChange Disconnected]
   \<and> onclose \<lparr>code = 1006, reason = [], wasClean = False\<rparr> =
        [OnError (js ''Connection closed abnormally - possible network issue or invalid API key''),
         OnStatusChange Disconnected]
   \<and> onclose \<lparr>code = 4000, reason = js ''going away'', wasClean = False\<rparr> =
        [OnError (js ''Connection closed: '' @ js ''going away''), OnStatusChange Disconnected]
   \<and> onclose \<lparr>code = 1001, reason = [], wasClean = False\<rparr> =
        [OnError (js ''Connection closed''), OnStatusChange Disconnected]"
  using onclose_classification [of "\<lparr>code = 1000, reason = [], wasClean = True\<rparr>"]
    onclose_classification [of "\<lparr>code = 1006, reason = [], wasClean = False\<rparr>"]
    onclose_classification [of "\<lparr>code = 4000, reason = js ''going away'', wasClean = False\<rparr>"]
    onclose_classification [of "\<lparr>code = 1001, reason = [], wasClean = False\<rparr>"]
  by (simp add: js_nonempty)

subsection \<open>disconnect\<close>

text \<open>
  C8: from any state of the client, and whether or not the two \<^verbatim>\<open>close()\<close> calls
  throw, \<open>disconnect\<close> returns normally. It closes the session when there is one,
  then the audio context when there is one, then calls \<open>onStatusChange\<close> with
  \<open>Disconnected\<close>, and does nothing else; afterwards the session and the audio
  context are \<open>None\<close>, the queue is empty, \<open>isPlaying\<close> is false, and no other
  field has changed. A second call right after leaves the client as the first call
  left it, closes nothing and reports \<open>Disconnected\<close> again.
\<close>

theorem disconnect_safe_idempotent:
  "(case disconnect session_close context_close c of
      (r, es, c') \<Rightarrow>
        r = Normal
        \<and> es = (if session c = None then [] else [SessionClose])
               @ (if audioContext c = None then [] else [AudioContextClose])
               @ [OnStatusChange Disconnected]
        \<and> c' = c\<lparr>session := None, audioContext := None, audioQueue := [],
                   isPlaying := False\<rparr>
        \<and> disconnect session_close' context_close' c'
            = (Normal, [OnStatusChange Disconnected], c'))"
  by (cases session_close; cases context_close)
     (simp_all add: disconnect_def try_catch_def call_def)

theorem disconnect_safe_idempotent_witness:
  "disconnect (Some (js ''boom'')) None
     \<lparr>session = Some Session, audioContext = Some AudioContext, audioQueue = [[1, 2]],
      isPlaying = True, draining = 1\<rparr>
   = (Normal, [SessionClose, AudioContextClose, OnStatusChange Disconnected],
      \<lparr>session = None, audioContext = None, audioQueue = [], isPlaying = False, draining = 1\<rparr>)
   \<and> disconnect None None
     \<lparr>session = None, audioContext = None, audioQueue = [], isPlaying = False, draining = 1\<rparr>
   = (Normal, [OnStatusChange Disconnected],
      \<lparr>session = None, audioContext = None, audioQueue = [], isPlaying = False, draining = 1\<rparr>)"
  using disconnect_safe_idempotent [where session_close = "Some (js ''boom'')"
     and context_close = None and session_close' = None and context_close' = None
     and c = "\<lparr>session = Some Session, audioContext = Some AudioContext,
      audioQueue = [[1, 2]], isPlaying = True, draining = 1\<rparr>"]
  by (auto split: prod.splits)

section \<open>Properties of the component\<close>

text \<open>
  C7: when \<^verbatim>\<open>GEMINI_API_KEY\<close> is not set (or empty), \<open>getApiConfig\<close> throws and
  \<open>connect\<close> of the component ends with status \<open>Error\<close> and the error
  "API Key Not Configured", \<open>recoverable = False\<close>; no effect is produced, in
  particular \<open>LiveConnect\<close> (the call that opens the transport) never happens,
  whereas with a credential it does.
\<close>

theorem connect_missing_credential:
  "(env = None \<or> env = Some [] \<longrightarrow>
      VoiceChat_connect env live u =
        ([], u\<lparr>connectionError := Some
                 \<lparr>message = js ''API Key Not Configured'',
                  details = Some (js ''The Gemini API key is not set up. Please contact the administrator.''),
                  recoverable = False\<rparr>,
               status := Error\<rparr>))
   \<and> (\<forall>apiKey. env = Some apiKey \<and> apiKey \<noteq> [] \<longrightarrow>
        LiveConnect apiKey \<in> set (fst (VoiceChat_connect env live u)))"
proof -
  have pe: "parseError (js ''GEMINI_API_KEY environment variable is not set'') =
      \<lparr>message = js ''API Key Not Configured'',
       details = Some (js ''The Gemini API key is not set up. Please contact the administrator.''),
       recoverable = False\<rparr>"
    by (simp add: parseError_def js_def)
  show ?thesis
    by (auto simp: VoiceChat_connect_def getApiConfig_def truthy_def pe connect_def Let_def
        split: option.splits)
qed

theorem connect_missing_credential_witness:
  "VoiceChat_connect None None
     \<lparr>messages = [], inputText = [], status = Disconnected, connectionError = None,
      retryCount = 0, clientRef = None, handlerStatus = Disconnected\<rparr>
   = ([], \<lparr>messages = [], inputText = [], status = Error,
          connectionError = Some
            \<lparr>message = js ''API Key Not Configured'',
             details = Some (js ''The Gemini API key is not set up. Please contact the administrator.''),
             recoverable = False\<rparr>,
          retryCount = 0, clientRef = None, handlerStatus = Disconnected\<rparr>)
   \<and> LiveConnect (js ''k'') \<in> set (fst (VoiceChat_connect (Some (js ''k'')) None
     \<lparr>messages = [], inputText = [], status = Disconnected, connectionError = None,
      retryCount = 0, clientRef = None, handlerStatus = Disconnected\<rparr>))"
  using connect_missing_credential [where env = None and live = None and u =
     "\<lparr>messages = [], inputText = [], status = Disconnected, connectionError = None,
      retryCount = 0, clientRef = None, handlerStatus = Disconnected\<rparr>"]
    connect_missing_credential [where env = "Some (js ''k'')" and live = None and u =
     "\<lparr>messages = [], inputText = [], status = Disconnected, connectionError = None,
      retryCount = 0, clientRef = None, handlerStatus = Disconnected\<rparr>"]
  by (simp add: js_nonempty)

end
